theory Spec2Isabelle
  imports Complex_Main "HOL-Library.Stream"
begin

section \<open>Rally segmentation: data model\<close>

text \<open>
  The embedding follows \<^verbatim>\<open>backend/app/core/rally_segmentation.py\<close>. Python floats are
  idealised as reals, Python ints are \<open>int\<close>. The video handle is replaced by the
  properties the constructor reads from it.

  The reals leave out the rounding of floats. Where a float result is rounded across a
  comparison or a whole number the code and the model can differ: a mean and a standard
  deviation of a constant series that are not exactly the constant and zero, a product
  that \<^verbatim>\<open>int()\<close> truncates just below a whole number, a duration that is printed
  with one decimal. The statements below are about the formulas, the comparisons and the
  bounds of the code, not about its rounding.
\<close>

type_synonym segment = "int \<times> int"

text \<open>A dict of the lists \<^verbatim>\<open>shots\<close> and \<^verbatim>\<open>mistakes\<close>, as key-value pairs.\<close>

type_synonym py_dict = "(string \<times> string) list"

record Rally =
  rally_number :: int
  start_frame :: int
  end_frame :: int
  start_time :: real
  end_time :: real
  duration :: real
  winner :: "string option"
  end_reason :: "string option"
  shots :: "py_dict list"
  mistakes :: "py_dict list"
  description :: string
  clip_path :: "string option"

text \<open>The fields \<^verbatim>\<open>x\<close> and \<^verbatim>\<open>y\<close> of a hit point are named \<open>hit_x\<close> and \<open>hit_y\<close>.\<close>

record HitPoint =
  frame :: int
  time :: real
  hit_x :: real
  hit_y :: real
  player :: "string option"
  shot_type :: "string option"

text \<open>One entry of \<^verbatim>\<open>self.motion_data\<close>: the dict with keys frame, time and motion.\<close>

record motion_sample =
  frame :: int
  time :: real
  motion :: real

text \<open>A row of the data frame: the sample with the three columns the detector adds.\<close>

record df_row = motion_sample +
  motion_smooth :: real
  active :: bool
  idle :: bool

text \<open>The video properties stored by \<^verbatim>\<open>__init__\<close>.\<close>

record segmenter =
  fps :: real
  frame_count :: int
  width :: int
  height :: int

text \<open>The attribute \<^verbatim>\<open>self.duration\<close> of the segmenter, set by \<^verbatim>\<open>__init__\<close>.\<close>

definition duration :: "segmenter \<Rightarrow> real" where
  "duration s = real_of_int (frame_count s) / fps s"

definition MIN_RALLY_DURATION :: real where
  "MIN_RALLY_DURATION = 2"

definition IDLE_THRESHOLD :: real where
  "IDLE_THRESHOLD = 3"

text \<open>Python's \<^verbatim>\<open>int(x)\<close> on a float truncates towards zero.\<close>

definition py_int :: "real \<Rightarrow> int" where
  "py_int x = (if 0 \<le> x then \<lfloor>x\<rfloor> else \<lceil>x\<rceil>)"

section \<open>The random source\<close>

text \<open>
  The module draws from Python's global generator. The generator is a stream of raw
  draws that every call consumes from the front: \<^verbatim>\<open>random.random()\<close> is a 53-bit
  integer divided by \<open>2^53\<close>, \<^verbatim>\<open>uniform(a, b)\<close> is \<open>a + (b - a) * random()\<close>,
  \<^verbatim>\<open>randint(a, b)\<close> and \<^verbatim>\<open>choice\<close> pick an index below the number of
  alternatives.
\<close>

type_synonym rng = "nat stream"

definition random_unit :: "rng \<Rightarrow> real \<times> rng" where
  "random_unit g = (real (shd g mod 2 ^ 53) / 2 ^ 53, stl g)"

definition uniform :: "real \<Rightarrow> real \<Rightarrow> rng \<Rightarrow> real \<times> rng" where
  "uniform a b g = (case random_unit g of (u, g') \<Rightarrow> (a + (b - a) * u, g'))"

definition randint :: "int \<Rightarrow> int \<Rightarrow> rng \<Rightarrow> int \<times> rng" where
  "randint a b g = (a + int (shd g mod nat (b - a + 1)), stl g)"

definition choice :: "'a list \<Rightarrow> rng \<Rightarrow> 'a \<times> rng" where
  "choice xs g = (xs ! (shd g mod length xs), stl g)"

section \<open>Fallback segmenter\<close>

definition avg_rally_duration :: "segmenter \<Rightarrow> real" where
  "avg_rally_duration s = (if duration s < 300 then 15 else 25)"

definition rally_lo :: "segmenter \<Rightarrow> real" where
  "rally_lo s = max 5 (avg_rally_duration s - 10)"

definition rally_hi :: "segmenter \<Rightarrow> real" where
  "rally_hi s = min 45 (avg_rally_duration s + 15)"

lemma random_unit_range: "0 \<le> fst (random_unit g) \<and> fst (random_unit g) < 1"
proof -
  have "real (shd g mod 2 ^ 53) < 2 ^ 53"
    by (metis mod_less_divisor of_nat_less_iff of_nat_numeral of_nat_power zero_less_numeral
        zero_less_power)
  then show ?thesis by (simp add: random_unit_def)
qed

lemma uniform_range:
  assumes "a \<le> b"
  shows "a \<le> fst (uniform a b g) \<and> fst (uniform a b g) \<le> b"
proof -
  obtain u g' where u: "random_unit g = (u, g')" by (cases "random_unit g")
  with random_unit_range [of g] have r: "0 \<le> u" "u < 1" by simp_all
  have "(b - a) * u \<le> (b - a) * 1"
    using assms r by (intro mult_left_mono) simp_all
  moreover have "0 \<le> (b - a) * u" using assms r by simp
  ultimately show ?thesis by (simp add: uniform_def u)
qed

lemma rally_lo_hi: "5 \<le> rally_lo s \<and> rally_lo s \<le> rally_hi s"
  by (simp add: rally_lo_def rally_hi_def avg_rally_duration_def)

lemma loop_measure:
  assumes "t < D - 5"
    and "(rd, g1) = uniform (rally_lo s) (rally_hi s) g"
    and "(gap, g2) = uniform 3 10 g1"
  shows "\<lceil>D - 5 - (t + rd + gap)\<rceil> < \<lceil>D - 5 - t\<rceil>"
proof -
  have rd: "5 \<le> rd"
    using uniform_range [of "rally_lo s" "rally_hi s" g] rally_lo_hi [of s] assms(2) [symmetric]
    by simp
  have gp: "3 \<le> gap"
    using uniform_range [of 3 10 g1] assms(3) [symmetric] by simp
  show ?thesis
    using rd gp by (simp add: ceiling_less_iff) linarith
qed

text \<open>
  The \<^verbatim>\<open>while\<close> loop of \<^verbatim>\<open>_create_time_based_rallies\<close>: the state is the current
  time, the generator and the segments appended so far.
\<close>

function time_based_loop ::
  "segmenter \<Rightarrow> real \<Rightarrow> rng \<Rightarrow> segment list \<Rightarrow> segment list \<times> rng" where
  "time_based_loop s current_time g segments =
     (if current_time < duration s - 5 then
        (case uniform (rally_lo s) (rally_hi s) g of (rally_duration, g1) \<Rightarrow>
           let start_frame = py_int (current_time * fps s);
               end_frame = py_int ((current_time + rally_duration) * fps s)
           in if end_frame \<ge> frame_count s then (segments, g1)
              else (case uniform 3 10 g1 of (gap, g2) \<Rightarrow>
                time_based_loop s (current_time + rally_duration + gap) g2
                  (segments @ [(start_frame, end_frame)])))
      else (segments, g))"
  by pat_completeness auto
termination
  by (relation "measure (\<lambda>(s, t, g, segs). nat \<lceil>duration s - 5 - t\<rceil>)")
    (auto intro: loop_measure)

declare time_based_loop.simps [simp del]

definition create_time_based_rallies :: "segmenter \<Rightarrow> rng \<Rightarrow> segment list \<times> rng" where
  "create_time_based_rallies s g = time_based_loop s 2 g []"

subsection \<open>The times behind the fallback segments\<close>

text \<open>
  The times behind the segments of the fallback loop: for every segment it appends, the
  current time and the rally duration drawn for it.
\<close>

function time_based_trace :: "segmenter \<Rightarrow> real \<Rightarrow> rng \<Rightarrow> (real \<times> real) list" where
  "time_based_trace s current_time g =
     (if current_time < duration s - 5 then
        (case uniform (rally_lo s) (rally_hi s) g of (rally_duration, g1) \<Rightarrow>
           if py_int ((current_time + rally_duration) * fps s) \<ge> frame_count s then []
           else (case uniform 3 10 g1 of (gap, g2) \<Rightarrow>
             (current_time, rally_duration)
               # time_based_trace s (current_time + rally_duration + gap) g2))
      else [])"
  by pat_completeness auto
termination
  by (relation "measure (\<lambda>(s, t, g). nat \<lceil>duration s - 5 - t\<rceil>)")
    (auto intro: loop_measure)

declare time_based_trace.simps [simp del]

text \<open>The frame pair that the loop appends for a current time and a rally duration.\<close>

definition frames_of :: "segmenter \<Rightarrow> real \<times> real \<Rightarrow> segment" where
  "frames_of s p = (py_int (fst p * fps s), py_int ((fst p + snd p) * fps s))"


text \<open>The time between the end of each traced segment and the start of the next.\<close>

definition gaps :: "(real \<times> real) list \<Rightarrow> real list" where
  "gaps tr = map (\<lambda>(p, q). fst q - (fst p + snd p)) (zip tr (tl tr))"

section \<open>Signal smoother and adaptive thresholder\<close>

definition window_size :: "segmenter \<Rightarrow> nat" where
  "window_size s = nat (max 5 (py_int (fps s / 2)))"

text \<open>
  The window of \<^verbatim>\<open>rolling(window=w, center=True, min_periods=1)\<close> at position \<open>i\<close>:
  pandas takes the positions from \<open>i + 1 + offset - w\<close> up to \<open>i + offset\<close> with
  \<open>offset = (w - 1) div 2\<close>, clipped to the series (the subtraction on \<open>nat\<close> clips at
  zero).
\<close>

definition rolling_window :: "nat \<Rightarrow> 'a list \<Rightarrow> nat \<Rightarrow> 'a list" where
  "rolling_window w xs i =
     (let offset = (w - 1) div 2;
          stop = min (length xs) (i + 1 + offset);
          start = min (length xs) (i + 1 + offset - w)
      in take (stop - start) (drop start xs))"

definition series_mean :: "real list \<Rightarrow> real" where
  "series_mean xs = sum_list xs / real (length xs)"

definition rolling_mean :: "nat \<Rightarrow> real list \<Rightarrow> real list" where
  "rolling_mean w xs = map (\<lambda>i. series_mean (rolling_window w xs i)) [0..<length xs]"

text \<open>\<^verbatim>\<open>Series.std()\<close> of pandas: the default \<^verbatim>\<open>ddof=1\<close> divides by \<open>n - 1\<close>.\<close>

definition series_var :: "real list \<Rightarrow> real" where
  "series_var xs =
     sum_list (map (\<lambda>v. (v - series_mean xs)\<^sup>2) xs) / (real (length xs) - 1)"

definition series_std :: "real list \<Rightarrow> real" where
  "series_std xs = sqrt (series_var xs)"

definition active_threshold :: "real list \<Rightarrow> real" where
  "active_threshold smooth = series_mean smooth + series_std smooth * 0.5"

definition idle_threshold :: "real list \<Rightarrow> real" where
  "idle_threshold smooth = series_mean smooth - series_std smooth * 0.3"

definition add_columns :: "real \<Rightarrow> real \<Rightarrow> motion_sample \<Rightarrow> real \<Rightarrow> df_row" where
  "add_columns threshold low_threshold m v =
     \<lparr>frame = frame m, time = time m, motion = motion m,
      motion_smooth = v, active = (v > threshold), idle = (v < low_threshold)\<rparr>"

text \<open>The data frame after the columns motion_smooth, active and idle are added.\<close>

definition classify :: "segmenter \<Rightarrow> motion_sample list \<Rightarrow> df_row list" where
  "classify s md =
     (let smooth = rolling_mean (window_size s) (map motion md)
      in map2 (add_columns (active_threshold smooth) (idle_threshold smooth)) md smooth)"

section \<open>Boundary detector\<close>

record det_state =
  rally_segments :: "segment list"
  in_rally :: bool
  rally_start :: int
  idle_start :: "int option"

definition init_state :: det_state where
  "init_state = \<lparr>rally_segments = [], in_rally = False, rally_start = 0, idle_start = None\<rparr>"

text \<open>The body of the loop over the rows of the data frame.\<close>

definition boundary_step :: "int \<Rightarrow> int \<Rightarrow> det_state \<Rightarrow> df_row \<Rightarrow> det_state" where
  "boundary_step min_rally_frames idle_threshold_frames st row =
     (if \<not> in_rally st then
        (if active row
         then st\<lparr>in_rally := True, rally_start := frame row, idle_start := None\<rparr>
         else st)
      else if idle row then
        (case idle_start st of
           None \<Rightarrow> st\<lparr>idle_start := Some (frame row)\<rparr>
         | Some i \<Rightarrow>
             if frame row - i > idle_threshold_frames then
               (if frame row - rally_start st > min_rally_frames
                then st\<lparr>rally_segments := rally_segments st @ [(rally_start st, i)],
                        in_rally := False, idle_start := None\<rparr>
                else st\<lparr>in_rally := False, idle_start := None\<rparr>)
             else st)
      else st\<lparr>idle_start := None\<rparr>)"

definition min_rally_frames :: "segmenter \<Rightarrow> int" where
  "min_rally_frames s = py_int (MIN_RALLY_DURATION * fps s)"

definition idle_threshold_frames :: "segmenter \<Rightarrow> int" where
  "idle_threshold_frames s = py_int (IDLE_THRESHOLD * fps s)"

definition walk_rows :: "segmenter \<Rightarrow> det_state \<Rightarrow> df_row list \<Rightarrow> det_state" where
  "walk_rows s st rows =
     foldl (boundary_step (min_rally_frames s) (idle_threshold_frames s)) st rows"

text \<open>The loop followed by the handling of a rally still open at the last row.\<close>

definition detect_segments :: "segmenter \<Rightarrow> df_row list \<Rightarrow> segment list" where
  "detect_segments s rows =
     (let st = walk_rows s init_state rows
      in if in_rally st \<and> length rows > 0 then
           (let last_frame = frame (last rows)
            in if last_frame - rally_start st > min_rally_frames s
               then rally_segments st @ [(rally_start st, last_frame)]
               else rally_segments st)
         else rally_segments st)"

text \<open>
  \<^verbatim>\<open>detect_rally_boundaries\<close>, given the motion data left by \<^verbatim>\<open>analyze_motion\<close>.
  Both exits store the returned list in \<^verbatim>\<open>self.rally_segments\<close>.
\<close>

definition detect_rally_boundaries ::
  "segmenter \<Rightarrow> motion_sample list \<Rightarrow> rng \<Rightarrow> segment list \<times> rng" where
  "detect_rally_boundaries s md g =
     (if length md < 10 then create_time_based_rallies s g
      else (let segs = detect_segments s (classify s md)
            in if segs = [] then create_time_based_rallies s g else (segs, g)))"

section \<open>Hit point estimator\<close>

text \<open>
  The body of the loop of \<^verbatim>\<open>estimate_hits_in_rally\<close> for the index \<open>i\<close>; \<open>sf\<close> and
  \<open>ef\<close> are the parameters \<^verbatim>\<open>start_frame\<close> and \<^verbatim>\<open>end_frame\<close>.
\<close>

definition estimate_hit ::
  "segmenter \<Rightarrow> int \<Rightarrow> int \<Rightarrow> real \<Rightarrow> nat \<Rightarrow> rng \<Rightarrow> HitPoint \<times> rng" where
  "estimate_hit s sf ef shot_interval i g =
     (let frame0 = py_int (real_of_int sf + shot_interval * (real i + 1))
      in case randint (- 5) 5 g of (jitter, g1) \<Rightarrow>
         let frame1 = max sf (min ef (frame0 + jitter));
             who = (if i mod 2 = 0 then ''Player A'' else ''Player B'')
         in case uniform 0.25 0.75 g1 of (ux, g2) \<Rightarrow>
            case (if who = ''Player A'' then uniform 0.6 0.85 g2 else uniform 0.15 0.4 g2) of
              (uy, g3) \<Rightarrow>
                (\<lparr>HitPoint.frame = frame1, time = real_of_int frame1 / fps s,
                  hit_x = real_of_int (width s) * ux, hit_y = real_of_int (height s) * uy,
                  player = Some who, shot_type = None\<rparr>, g3))"

fun hits_loop ::
  "segmenter \<Rightarrow> int \<Rightarrow> int \<Rightarrow> real \<Rightarrow> nat list \<Rightarrow> rng \<Rightarrow> HitPoint list
     \<Rightarrow> HitPoint list \<times> rng" where
  "hits_loop s sf ef shot_interval [] g hits = (hits, g)"
| "hits_loop s sf ef shot_interval (i # ks) g hits =
     (case estimate_hit s sf ef shot_interval i g of (h, g') \<Rightarrow>
        hits_loop s sf ef shot_interval ks g' (hits @ [h]))"

definition estimated_shots :: "real \<Rightarrow> real \<Rightarrow> int" where
  "estimated_shots dur shots_per_second = max 2 (py_int (dur * shots_per_second))"

definition estimate_hits_in_rally ::
  "segmenter \<Rightarrow> int \<Rightarrow> int \<Rightarrow> rng \<Rightarrow> HitPoint list \<times> rng" where
  "estimate_hits_in_rally s sf ef g =
     (let dur = real_of_int (ef - sf) / fps s
      in case uniform 0.5 1.2 g of (shots_per_second, g1) \<Rightarrow>
         let n = estimated_shots dur shots_per_second;
             shot_interval = real_of_int (ef - sf) / real_of_int (n + 1)
         in hits_loop s sf ef shot_interval [0..<nat n] g1 [])"

section \<open>Winner, end reason and description\<close>

definition determine_winner :: "int \<Rightarrow> string \<Rightarrow> rng \<Rightarrow> string \<times> rng" where
  "determine_winner rally_num reason g =
     (case random_unit g of (r, g') \<Rightarrow>
        (if r < 0.55 then ''Player A'' else ''Player B'', g'))"

definition determine_end_reason :: "real \<Rightarrow> rng \<Rightarrow> string \<times> rng" where
  "determine_end_reason dur g =
     (if dur < 5 then
        (case random_unit g of (r, g') \<Rightarrow>
           (if r < 0.3 then ''net'' else if r < 0.5 then ''out'' else ''in_court'', g'))
      else if dur < 15 then
        (case random_unit g of (r, g') \<Rightarrow>
           (if r < 0.15 then ''net'' else if r < 0.25 then ''out'' else ''in_court'', g'))
      else
        (case random_unit g of (r, g') \<Rightarrow>
           (if r < 0.1 then ''net'' else if r < 0.2 then ''out'' else ''in_court'', g')))"

text \<open>
  Python's \<^verbatim>\<open>str\<close> on an int and the format \<^verbatim>\<open>.1f\<close> on a float. The format
  is applied to the real value, rounded half to even; Python formats the double next to
  it, so the last digit can differ where the real lies halfway between two tenths and is
  no binary fraction (5.35 is printed as 5.3). Only the description being non-empty is
  used below.
\<close>

definition digit_char :: "nat \<Rightarrow> char" where
  "digit_char d = ''0123456789'' ! d"

function str_nat :: "nat \<Rightarrow> string" where
  "str_nat n = (if n < 10 then [digit_char n] else str_nat (n div 10) @ [digit_char (n mod 10)])"
  by pat_completeness auto
termination
  by (relation "measure id") auto

declare str_nat.simps [simp del]

definition str_int :: "int \<Rightarrow> string" where
  "str_int i = (if i < 0 then ''-'' @ str_nat (nat (- i)) else str_nat (nat i))"

definition round_half_even :: "real \<Rightarrow> int" where
  "round_half_even v =
     (let f = \<lfloor>v\<rfloor>; d = v - of_int f
      in if d < 1 / 2 then f else if d > 1 / 2 then f + 1 else if even f then f else f + 1)"

definition format_1f :: "real \<Rightarrow> string" where
  "format_1f v =
     (let n = round_half_even (\<bar>v\<bar> * 10)
      in (if v < 0 then ''-'' else []) @ str_nat (nat (n div 10)) @ ''.'' @ str_nat (nat (n mod 10)))"

definition templates :: "Rally \<Rightarrow> string list" where
  "templates rally =
     [''Rally '' @ str_int (rally_number rally) @ '': A '' @ format_1f (Rally.duration rally)
        @ '' second exchange with '' @ str_nat (length (shots rally)) @ '' shots. '',
      ''Rally '' @ str_int (rally_number rally) @ '': '' @ str_nat (length (shots rally))
        @ '' shot rally lasting '' @ format_1f (Rally.duration rally) @ '' seconds. '',
      ''Rally '' @ str_int (rally_number rally) @ '': An intense ''
        @ format_1f (Rally.duration rally) @ '' second rally featuring ''
        @ str_nat (length (shots rally)) @ '' shots. '']"

definition endings :: "Rally \<Rightarrow> string list" where
  "endings rally =
     (if end_reason rally = Some ''net'' then
        [''Ended with a net error. '', ''The shuttlecock clipped the net. '',
         ''A net shot went into the net. '']
      else if end_reason rally = Some ''out'' then
        [''Ended with the shuttlecock going out. '', ''A powerful shot sailed out of bounds. '',
         ''The return went long. '']
      else
        [''Ended with a clean winner. '', ''A decisive shot won the point. '',
         ''The rally ended with an unreturnable shot. ''])"

definition generate_rally_description :: "Rally \<Rightarrow> rng \<Rightarrow> string \<times> rng" where
  "generate_rally_description rally g =
     (case choice (templates rally) g of (template, g1) \<Rightarrow>
      case choice (endings rally) g1 of (ending, g2) \<Rightarrow>
        (case winner rally of
           None \<Rightarrow> template @ ending
         | Some w \<Rightarrow> if w = [] then template @ ending
                     else template @ ending @ w @ '' won this rally.'', g2))"

section \<open>Building the rallies\<close>

text \<open>
  The body shared by the loops of \<^verbatim>\<open>segment_rallies\<close> and
  \<^verbatim>\<open>segment_rallies_async\<close> for the segment at index \<open>i\<close>: the rally and the hits that
  are appended to \<^verbatim>\<open>self.hit_points\<close>.
\<close>

definition build_rally ::
  "segmenter \<Rightarrow> nat \<Rightarrow> segment \<Rightarrow> rng \<Rightarrow> (Rally \<times> HitPoint list) \<times> rng" where
  "build_rally s i seg g =
     (case seg of (sf, ef) \<Rightarrow>
      let dur = real_of_int (ef - sf) / fps s
      in case determine_end_reason dur g of (reason, g1) \<Rightarrow>
         case determine_winner (int i + 1) reason g1 of (win, g2) \<Rightarrow>
         let rally = \<lparr>rally_number = int i + 1, start_frame = sf, end_frame = ef,
                      start_time = real_of_int sf / fps s, end_time = real_of_int ef / fps s,
                      duration = dur, winner = Some win, end_reason = Some reason,
                      shots = [], mistakes = [], description = [], clip_path = None\<rparr>
         in case estimate_hits_in_rally s sf ef g2 of (hits, g3) \<Rightarrow>
            case generate_rally_description rally g3 of (descr, g4) \<Rightarrow>
              ((rally\<lparr>description := descr\<rparr>, hits), g4))"

text \<open>The state of the segmenter that the loops change, with the generator.\<close>

record run_state =
  rallies :: "Rally list"
  hit_points :: "HitPoint list"
  gen :: rng

fun build_rallies :: "segmenter \<Rightarrow> nat \<Rightarrow> segment list \<Rightarrow> run_state \<Rightarrow> run_state" where
  "build_rallies s i [] st = st"
| "build_rallies s i (seg # segs) st =
     (case build_rally s i seg (gen st) of ((rally, hits), g') \<Rightarrow>
        build_rallies s (Suc i) segs
          \<lparr>rallies = rallies st @ [rally], hit_points = hit_points st @ hits, gen = g'\<rparr>)"

text \<open>
  \<^verbatim>\<open>segment_rallies\<close> without a progress callback (the default), given the motion data
  that \<^verbatim>\<open>analyze_motion\<close> leaves.
\<close>

definition segment_rallies :: "segmenter \<Rightarrow> motion_sample list \<Rightarrow> rng \<Rightarrow> run_state" where
  "segment_rallies s md g =
     (case detect_rally_boundaries s md g of (segs, g1) \<Rightarrow>
        build_rallies s 0 segs \<lparr>rallies = [], hit_points = [], gen = g1\<rparr>)"

section \<open>Progress notifications of the asynchronous run\<close>

text \<open>
  What \<^verbatim>\<open>segment_rallies_async\<close> emits, in order: a call of the progress callback or a
  yielded dict with its progress, its message and, for a rally, the rally.
\<close>

datatype notification =
  Callback real string
| Yield real string "Rally option"

fun percent :: "notification \<Rightarrow> real" where
  "percent (Callback p m) = p"
| "percent (Yield p m r) = p"

fun build_rallies_async ::
  "segmenter \<Rightarrow> nat \<Rightarrow> nat \<Rightarrow> segment list \<Rightarrow> run_state \<times> notification list
     \<Rightarrow> run_state \<times> notification list" where
  "build_rallies_async s n i [] (st, out) = (st, out)"
| "build_rallies_async s n i (seg # segs) (st, out) =
     (case build_rally s i seg (gen st) of ((rally, hits), g') \<Rightarrow>
        build_rallies_async s n (Suc i) segs
          (\<lparr>rallies = rallies st @ [rally], hit_points = hit_points st @ hits, gen = g'\<rparr>,
           out @ [Yield (70 + (real i / real n) * 25)
                    (''Processing rally '' @ str_nat (i + 1) @ ''/'' @ str_nat n)
                    (Some rally)]))"

definition callback :: "bool \<Rightarrow> real \<Rightarrow> string \<Rightarrow> notification list" where
  "callback has_callback p m = (if has_callback then [Callback p m] else [])"

definition segment_rallies_async ::
  "segmenter \<Rightarrow> bool \<Rightarrow> motion_sample list \<Rightarrow> rng \<Rightarrow> run_state \<times> notification list" where
  "segment_rallies_async s has_callback md g =
     (let out1 = callback has_callback 0 ''Starting video analysis...''
                 @ [Yield 40 ''Motion analysis complete'' None]
                 @ callback has_callback 45 ''Detecting rally boundaries...''
      in case detect_rally_boundaries s md g of (segs, g1) \<Rightarrow>
         let out2 = out1
                 @ [Yield 60 (''Found '' @ str_nat (length segs) @ '' rally segments'') None]
                 @ callback has_callback 70 ''Building rally data...''
         in case build_rallies_async s (length segs) 0 segs
                   (\<lparr>rallies = [], hit_points = [], gen = g1\<rparr>, out2) of
              (st, out3) \<Rightarrow>
                (st, out3 @ [Yield 95 (''Completed: '' @ str_nat (length (rallies st))
                                        @ '' rallies detected'') None]))"

section \<open>Motion data of a sampled video\<close>

text \<open>
  \<^verbatim>\<open>analyze_motion\<close> samples every \<^verbatim>\<open>sample_interval\<close> frames and records a dict for
  each sampled frame but the first; \<open>motion_series\<close> is the motion data it leaves when the
  sampled frames have the given motion scores.
\<close>

definition sample_interval :: "segmenter \<Rightarrow> int" where
  "sample_interval s = max 1 (py_int (fps s / 5))"

fun series_from :: "segmenter \<Rightarrow> int \<Rightarrow> real list \<Rightarrow> motion_sample list" where
  "series_from s f [] = []"
| "series_from s f (m # ms) =
     \<lparr>frame = f, time = real_of_int f / fps s, motion = m\<rparr>
       # series_from s (f + sample_interval s) ms"

definition motion_series :: "segmenter \<Rightarrow> real list \<Rightarrow> motion_sample list" where
  "motion_series s scores = series_from s (sample_interval s) scores"

section \<open>Example inputs\<close>

text \<open>A video of 60 seconds at 30 frames per second.\<close>

definition video30 :: segmenter where
  "video30 = \<lparr>fps = 30, frame_count = 1800, width = 1280, height = 720\<rparr>"

text \<open>A generator whose every draw is in the middle of its range.\<close>

definition mid_draws :: rng where
  "mid_draws = sconst (2 ^ 52)"

text \<open>A short clip at 10 frames per second and ten motion scores sampled from it.\<close>

definition video10 :: segmenter where
  "video10 = \<lparr>fps = 10, frame_count = 22, width = 1280, height = 720\<rparr>"

definition ramp_scores :: "real list" where
  "ramp_scores = [30, 20, 10, 0, 10, 25, 30, 30, 30, 30]"

text \<open>
  The population standard deviation, as the specification of the adaptive thresholder
  words it: the root of the mean squared deviation, with divisor \<open>n\<close>.
\<close>

definition population_std :: "real list \<Rightarrow> real" where
  "population_std xs =
     sqrt (sum_list (map (\<lambda>v. (v - series_mean xs)\<^sup>2) xs) / real (length xs))"

text \<open>
  Motion scores of a single burst of motion followed by stillness, 28 samples of
  \<open>video30\<close>, and the rolling means of the scores over 15 samples.
\<close>

definition spike_scores :: "real list" where
  "spike_scores = [360360, 0, 0, 0, 0, 0, 0, 0, 0, 0, 0, 0, 0, 0, 0, 0, 0, 0, 0, 0, 0, 0, 0, 0, 0, 0, 0, 0]"

definition spike_smooth :: "real list" where
  "spike_smooth = [45045, 40040, 36036, 32760, 30030, 27720, 25740, 24024, 0, 0, 0, 0, 0, 0, 0, 0, 0, 0, 0, 0, 0, 0, 0, 0, 0, 0, 0, 0]"

text \<open>A classified row at a frame of a video.\<close>

definition classified_row :: "segmenter \<Rightarrow> int \<Rightarrow> bool \<Rightarrow> bool \<Rightarrow> df_row" where
  "classified_row s f a i =
     \<lparr>frame = f, time = real_of_int f / fps s, motion = (if a then 1000 else 0),
      motion_smooth = (if a then 1000 else 0), active = a, idle = i\<rparr>"

text \<open>Two active spikes of 10 rows each with 10 idle rows (54 frames) between them.\<close>

definition merged_spike1 :: "df_row list" where
  "merged_spike1 = map (\<lambda>k. classified_row video30 (6 * (int k + 1)) True False) [0..<10]"

definition merged_gap :: "df_row list" where
  "merged_gap = map (\<lambda>k. classified_row video30 (6 * (int k + 1)) False True) [10..<20]"

definition merged_spike2 :: "df_row list" where
  "merged_spike2 = map (\<lambda>k. classified_row video30 (6 * (int k + 1)) True False) [20..<30]"

text \<open>
  A video of 726 frames at 30 frames per second, of which \<^verbatim>\<open>analyze_motion\<close>
  records the 120 samples at the frames 6, 12, ..., 720; motion scores for it that
  alternate 4 seconds of 1000 with 4 seconds of 0 three times; and the rolling means of
  the scores over 15 samples.
\<close>

definition video24 :: segmenter where
  "video24 = \<lparr>fps = 30, frame_count = 726, width = 1280, height = 720\<rparr>"

definition raw_alternating :: "real list" where
  "raw_alternating =
     [1000, 1000, 1000, 1000, 1000, 1000, 1000, 1000, 1000, 1000, 1000, 1000, 1000, 1000,
     1000, 1000, 1000, 1000, 1000, 1000, 0, 0, 0, 0, 0, 0, 0, 0, 0, 0, 0, 0, 0, 0, 0, 0,
     0, 0, 0, 0, 1000, 1000, 1000, 1000, 1000, 1000, 1000, 1000, 1000, 1000, 1000, 1000,
     1000, 1000, 1000, 1000, 1000, 1000, 1000, 1000, 0, 0, 0, 0, 0, 0, 0, 0, 0, 0, 0, 0,
     0, 0, 0, 0, 0, 0, 0, 0, 1000, 1000, 1000, 1000, 1000, 1000, 1000, 1000, 1000, 1000,
     1000, 1000, 1000, 1000, 1000, 1000, 1000, 1000, 1000, 1000, 0, 0, 0, 0, 0, 0, 0, 0,
     0, 0, 0, 0, 0, 0, 0, 0, 0, 0, 0, 0]"

definition raw_alternating_smooth :: "real list" where
  "raw_alternating_smooth =
     [1000, 1000, 1000, 1000, 1000, 1000, 1000, 1000, 1000, 1000, 1000, 1000, 1000, 2800 /
     3, 2600 / 3, 800, 2200 / 3, 2000 / 3, 600, 1600 / 3, 1400 / 3, 400, 1000 / 3, 800 /
     3, 200, 400 / 3, 200 / 3, 0, 0, 0, 0, 0, 0, 200 / 3, 400 / 3, 200, 800 / 3, 1000 / 3,
     400, 1400 / 3, 1600 / 3, 600, 2000 / 3, 2200 / 3, 800, 2600 / 3, 2800 / 3, 1000,
     1000, 1000, 1000, 1000, 1000, 2800 / 3, 2600 / 3, 800, 2200 / 3, 2000 / 3, 600, 1600
     / 3, 1400 / 3, 400, 1000 / 3, 800 / 3, 200, 400 / 3, 200 / 3, 0, 0, 0, 0, 0, 0, 200 /
     3, 400 / 3, 200, 800 / 3, 1000 / 3, 400, 1400 / 3, 1600 / 3, 600, 2000 / 3, 2200 / 3,
     800, 2600 / 3, 2800 / 3, 1000, 1000, 1000, 1000, 1000, 1000, 2800 / 3, 2600 / 3, 800,
     2200 / 3, 2000 / 3, 600, 1600 / 3, 1400 / 3, 400, 1000 / 3, 800 / 3, 200, 400 / 3,
     200 / 3, 0, 0, 0, 0, 0, 0, 0, 0, 0, 0, 0, 0, 0]"

text \<open>
  Two bursts of 16 samples of motion, each followed by 24 samples of stillness, and their
  rolling means over 15 samples.
\<close>

definition two_bursts :: "real list" where
  "two_bursts =
     [1000, 1000, 1000, 1000, 1000, 1000, 1000, 1000, 1000, 1000, 1000, 1000, 1000, 1000,
     1000, 1000, 0, 0, 0, 0, 0, 0, 0, 0, 0, 0, 0, 0, 0, 0, 0, 0, 0, 0, 0, 0, 0, 0, 0, 0,
     1000, 1000, 1000, 1000, 1000, 1000, 1000, 1000, 1000, 1000, 1000, 1000, 1000, 1000,
     1000, 1000, 0, 0, 0, 0, 0, 0, 0, 0, 0, 0, 0, 0, 0, 0, 0, 0, 0, 0, 0, 0, 0, 0, 0, 0]"

definition two_bursts_smooth :: "real list" where
  "two_bursts_smooth =
     [1000, 1000, 1000, 1000, 1000, 1000, 1000, 1000, 1000, 2800 / 3, 2600 / 3, 800, 2200
     / 3, 2000 / 3, 600, 1600 / 3, 1400 / 3, 400, 1000 / 3, 800 / 3, 200, 400 / 3, 200 /
     3, 0, 0, 0, 0, 0, 0, 0, 0, 0, 0, 200 / 3, 400 / 3, 200, 800 / 3, 1000 / 3, 400, 1400
     / 3, 1600 / 3, 600, 2000 / 3, 2200 / 3, 800, 2600 / 3, 2800 / 3, 1000, 1000, 2800 /
     3, 2600 / 3, 800, 2200 / 3, 2000 / 3, 600, 1600 / 3, 1400 / 3, 400, 1000 / 3, 800 /
     3, 200, 400 / 3, 200 / 3, 0, 0, 0, 0, 0, 0, 0, 0, 0, 0, 0, 0, 0, 0, 0, 0, 0]"

text \<open>
  A video of 1800 frames at 29.97 frames per second, and a generator whose every draw is
  the lowest of its range.
\<close>

definition video_ntsc :: segmenter where
  "video_ntsc = \<lparr>fps = 2997 / 100, frame_count = 1800, width = 1280, height = 720\<rparr>"

definition zero_draws :: rng where
  "zero_draws = sconst 0"

section \<open>Properties stated about the segmenter\<close>

text \<open>
  Consecutive segments do not overlap: each ends at or before the start of the next.
\<close>

definition non_overlapping :: "segment list \<Rightarrow> bool" where
  "non_overlapping segs \<longleftrightarrow> (\<forall>i. Suc i < length segs \<longrightarrow> snd (segs ! i) \<le> fst (segs ! Suc i))"

text \<open>
  The invariant of the state machine after the row at frame \<open>f\<close>: the emitted segments
  are ordered and end by \<open>f\<close>; an open rally starts after all of them, and a pending
  idle start lies after the rally start.
\<close>

definition det_inv :: "int \<Rightarrow> det_state \<Rightarrow> bool" where
  "det_inv f st \<longleftrightarrow>
     sorted_wrt (\<lambda>p q. snd p < fst q) (rally_segments st) \<and>
     (\<forall>p\<in>set (rally_segments st). fst p < snd p \<and> snd p \<le> f) \<and>
     (in_rally st \<longrightarrow>
        rally_start st \<le> f \<and>
        (\<forall>p\<in>set (rally_segments st). snd p < rally_start st) \<and>
        (\<forall>i. idle_start st = Some i \<longrightarrow> rally_start st < i \<and> i \<le> f))"

definition segs_ok :: "segment list \<Rightarrow> bool" where
  "segs_ok segs \<longleftrightarrow>
     sorted_wrt (\<lambda>p q. snd p < fst q) segs \<and> (\<forall>p\<in>set segs. fst p < snd p)"

text \<open>The fields of the rally that is built for the segment at index \<open>i\<close>.\<close>

definition rally_fields :: "segmenter \<Rightarrow> nat \<Rightarrow> segment \<Rightarrow> Rally \<Rightarrow> bool" where
  "rally_fields s i seg r \<longleftrightarrow>
     rally_number r = int i + 1 \<and> start_frame r = fst seg \<and> end_frame r = snd seg \<and>
     start_time r = real_of_int (fst seg) / fps s \<and>
     end_time r = real_of_int (snd seg) / fps s \<and>
     Rally.duration r = real_of_int (snd seg - fst seg) / fps s \<and>
     (winner r = Some ''Player A'' \<or> winner r = Some ''Player B'') \<and>
     (end_reason r = Some ''net'' \<or> end_reason r = Some ''out''
      \<or> end_reason r = Some ''in_court'') \<and>
     description r \<noteq> [] \<and>
     shots r = [] \<and> mistakes r = [] \<and> clip_path r = None"

section \<open>Properties of the boundary detector\<close>

lemma det_inv_init: "det_inv f init_state"
  by (simp add: det_inv_def init_state_def)

lemma det_inv_step:
  assumes "det_inv f st" and "f < frame row"
  shows "det_inv (frame row) (boundary_step m t st row)"
  using assms
  by (auto simp: det_inv_def boundary_step_def sorted_wrt_append split: option.splits)

lemma det_inv_foldl:
  assumes "det_inv f st" and "sorted_wrt (<) (map frame rows)"
    and "\<forall>r\<in>set rows. f < frame r"
  shows "det_inv (if rows = [] then f else frame (last rows))
           (foldl (boundary_step m t) st rows)"
  using assms
proof (induction rows arbitrary: f st)
  case Nil
  then show ?case by simp
next
  case (Cons r rows)
  have "det_inv (frame r) (boundary_step m t st r)"
    using Cons.prems by (auto intro: det_inv_step)
  from Cons.IH [OF this] Cons.prems(2) show ?case by auto
qed


lemma py_int_mono: "a \<le> b \<Longrightarrow> py_int a \<le> py_int b"
  unfolding py_int_def
  by (auto intro: floor_mono ceiling_mono) (smt (verit) ceiling_le_zero zero_le_floor)

lemma py_int_nonneg: "0 \<le> a \<Longrightarrow> 0 \<le> py_int a"
  by (simp add: py_int_def)

lemma detect_segments_ok:
  assumes "0 < fps s" and "sorted_wrt (<) (map frame rows)"
  shows "segs_ok (detect_segments s rows)"
proof -
  let ?st = "walk_rows s init_state rows"
  have inv: "det_inv (if rows = [] then 0 else frame (last rows)) ?st"
  proof (cases rows)
    case Nil
    then show ?thesis by (simp add: walk_rows_def det_inv_init)
  next
    case (Cons r rs)
    have a: "det_inv (frame r - 1) init_state" by (rule det_inv_init)
    have b: "\<forall>q\<in>set rows. frame r - 1 < frame q"
      using assms(2) Cons by auto
    from det_inv_foldl [OF a assms(2) b] Cons show ?thesis
      unfolding walk_rows_def by simp
  qed
  have m: "0 \<le> min_rally_frames s"
    using assms(1) by (simp add: min_rally_frames_def MIN_RALLY_DURATION_def py_int_nonneg)
  show ?thesis
    using inv m
    by (auto simp: detect_segments_def Let_def segs_ok_def det_inv_def sorted_wrt_append)
qed

section \<open>Properties of the fallback segmenter\<close>

lemma loop_trace:
  "fst (time_based_loop s t g acc) = acc @ map (frames_of s) (time_based_trace s t g)"
proof (induction s t g acc rule: time_based_loop.induct)
  case (1 s t g acc)
  show ?case
  proof (cases "t < duration s - 5")
    case False
    then show ?thesis by (simp add: time_based_loop.simps [of s t] time_based_trace.simps [of s t])
  next
    case True
    obtain rd g1 where u1: "uniform (rally_lo s) (rally_hi s) g = (rd, g1)"
      by (cases "uniform (rally_lo s) (rally_hi s) g")
    obtain gap g2 where u2: "uniform 3 10 g1 = (gap, g2)" by (cases "uniform 3 10 g1")
    show ?thesis
    proof (cases "py_int ((t + rd) * fps s) \<ge> frame_count s")
      case True
      with \<open>t < duration s - 5\<close> u1 show ?thesis
        by (simp add: time_based_loop.simps [of s t] time_based_trace.simps [of s t])
    next
      case False
      have "fst (time_based_loop s (t + rd + gap) g2
                  (acc @ [(py_int (t * fps s), py_int ((t + rd) * fps s))]))
            = (acc @ [(py_int (t * fps s), py_int ((t + rd) * fps s))])
                @ map (frames_of s) (time_based_trace s (t + rd + gap) g2)"
        using "1.IH" [OF True u1 [symmetric] refl refl _ u2 [symmetric]] False by simp
      with True False u1 u2 show ?thesis
        by (simp add: time_based_loop.simps [of s t] time_based_trace.simps [of s t] frames_of_def)
    qed
  qed
qed


lemma trace_unfold:
  assumes "t < duration s - 5"
    and "uniform (rally_lo s) (rally_hi s) g = (rd, g1)"
    and "\<not> py_int ((t + rd) * fps s) \<ge> frame_count s"
    and "uniform 3 10 g1 = (gap, g2)"
  shows "time_based_trace s t g = (t, rd) # time_based_trace s (t + rd + gap) g2"
  using assms by (simp add: time_based_trace.simps [of s t])

lemma trace_cases:
  obtains (stop) "time_based_trace s t g = []"
  | (step) rd g1 gap g2 where "t < duration s - 5"
      "uniform (rally_lo s) (rally_hi s) g = (rd, g1)"
      "\<not> py_int ((t + rd) * fps s) \<ge> frame_count s"
      "uniform 3 10 g1 = (gap, g2)"
      "time_based_trace s t g = (t, rd) # time_based_trace s (t + rd + gap) g2"
proof -
  obtain rd g1 where u1: "uniform (rally_lo s) (rally_hi s) g = (rd, g1)"
    by (cases "uniform (rally_lo s) (rally_hi s) g")
  obtain gap g2 where u2: "uniform 3 10 g1 = (gap, g2)" by (cases "uniform 3 10 g1")
  show ?thesis
  proof (cases "t < duration s - 5 \<and> \<not> py_int ((t + rd) * fps s) \<ge> frame_count s")
    case True
    then show ?thesis using step [OF _ u1 _ u2] trace_unfold [OF _ u1 _ u2] by blast
  next
    case False
    then have "time_based_trace s t g = []"
      using u1 by (auto simp: time_based_trace.simps [of s t])
    then show ?thesis by (rule stop)
  qed
qed

lemma uniform_bounds:
  assumes "uniform a b g = (v, g')" and "a \<le> b"
  shows "a \<le> v \<and> v \<le> b"
  using uniform_range [OF assms(2), of g] assms(1) by simp

lemma trace_hd: "time_based_trace s t g = p # rest \<Longrightarrow> fst p = t"
  by (cases s t g rule: trace_cases) auto

lemma trace_elems:
  "\<forall>p\<in>set (time_based_trace s t g).
     t \<le> fst p \<and> rally_lo s \<le> snd p \<and> snd p \<le> rally_hi s \<and> fst p < duration s - 5
     \<and> py_int ((fst p + snd p) * fps s) < frame_count s"
proof (induction s t g rule: time_based_trace.induct)
  case (1 s t g)
  show ?case
  proof (cases s t g rule: trace_cases)
    case stop
    then show ?thesis by simp
  next
    case (step rd g1 gap g2)
    have rd: "rally_lo s \<le> rd \<and> rd \<le> rally_hi s"
      using uniform_bounds [OF step(2)] rally_lo_hi [of s] by simp
    have gp: "3 \<le> gap \<and> gap \<le> 10" using uniform_bounds [OF step(4)] by simp
    have "5 \<le> rd" using rd rally_lo_hi [of s] by simp
    with gp have le: "t \<le> t + rd + gap" by simp
    have IH: "\<forall>p\<in>set (time_based_trace s (t + rd + gap) g2).
        t + rd + gap \<le> fst p \<and> rally_lo s \<le> snd p \<and> snd p \<le> rally_hi s
        \<and> fst p < duration s - 5 \<and> py_int ((fst p + snd p) * fps s) < frame_count s"
      using "1.IH" [OF step(1) step(2) [symmetric] _ step(4) [symmetric]] step(3) by simp
    show ?thesis
      unfolding step(5) using IH le rd step(1) step(3) by auto
  qed
qed

lemma trace_gaps:
  "\<forall>v\<in>set (gaps (time_based_trace s t g)). 3 \<le> v \<and> v \<le> 10"
proof (induction s t g rule: time_based_trace.induct)
  case (1 s t g)
  show ?case
  proof (cases s t g rule: trace_cases)
    case stop
    then show ?thesis by (simp add: gaps_def)
  next
    case (step rd g1 gap g2)
    have gp: "3 \<le> gap \<and> gap \<le> 10" using uniform_bounds [OF step(4)] by simp
    have IH: "\<forall>v\<in>set (gaps (time_based_trace s (t + rd + gap) g2)). 3 \<le> v \<and> v \<le> 10"
      using "1.IH" [OF step(1) step(2) [symmetric] _ step(4) [symmetric]] step(3) by simp
    show ?thesis
    proof (cases "time_based_trace s (t + rd + gap) g2")
      case Nil
      then show ?thesis unfolding step(5) by (simp add: gaps_def)
    next
      case (Cons p rest)
      have "fst p = t + rd + gap" using trace_hd [OF Cons] .
      with IH gp Cons show ?thesis unfolding step(5) by (simp add: gaps_def)
    qed
  qed
qed

lemma fst_frames_of: "fst (frames_of s p) = py_int (fst p * fps s)"
  by (simp add: frames_of_def)

lemma snd_frames_of: "snd (frames_of s p) = py_int ((fst p + snd p) * fps s)"
  by (simp add: frames_of_def)

lemma trace_frames_sorted:
  assumes "0 < fps s"
  shows "sorted_wrt (\<lambda>p q. snd p \<le> fst q) (map (frames_of s) (time_based_trace s t g)) \<and>
         (\<forall>p\<in>set (map (frames_of s) (time_based_trace s t g)).
            py_int (t * fps s) \<le> fst p \<and> fst p \<le> snd p)"
  using assms
proof (induction s t g rule: time_based_trace.induct)
  case (1 s t g)
  show ?case
  proof (cases s t g rule: trace_cases)
    case stop
    then show ?thesis by simp
  next
    case (step rd g1 gap g2)
    have rd: "5 \<le> rd"
      using uniform_bounds [OF step(2)] rally_lo_hi [of s] by simp
    have gp: "3 \<le> gap" using uniform_bounds [OF step(4)] by simp
    have IH: "sorted_wrt (\<lambda>p q. snd p \<le> fst q)
                (map (frames_of s) (time_based_trace s (t + rd + gap) g2)) \<and>
              (\<forall>p\<in>set (map (frames_of s) (time_based_trace s (t + rd + gap) g2)).
                 py_int ((t + rd + gap) * fps s) \<le> fst p \<and> fst p \<le> snd p)"
      using "1.IH" [OF step(1) step(2) [symmetric] _ step(4) [symmetric]] step(3) "1.prems"
      by simp
    have a: "py_int (t * fps s) \<le> py_int ((t + rd) * fps s)"
      using rd "1.prems" by (intro py_int_mono mult_right_mono) simp_all
    have b: "py_int ((t + rd) * fps s) \<le> py_int ((t + rd + gap) * fps s)"
      using gp "1.prems" by (intro py_int_mono mult_right_mono) simp_all
    show ?thesis
      unfolding step(5) using IH a b by (auto simp: fst_frames_of snd_frames_of)
  qed
qed

lemma trace_frames_strict:
  assumes "1 / 5 \<le> fps s" and "0 \<le> t"
  shows "\<forall>p\<in>set (map (frames_of s) (time_based_trace s t g)). fst p < snd p"
proof -
  have "fst (frames_of s p) < snd (frames_of s p)" if p: "p \<in> set (time_based_trace s t g)" for p
  proof -
    from trace_elems [of s t g] p have "t \<le> fst p" "rally_lo s \<le> snd p" by auto
    then have t: "0 \<le> fst p" and d: "5 \<le> snd p"
      using assms(2) rally_lo_hi [of s] by auto
    have "1 \<le> snd p * fps s"
      using mult_mono [of 5 "snd p" "1 / 5" "fps s"] d assms(1) by simp
    then have "fst p * fps s + 1 \<le> (fst p + snd p) * fps s" by (simp add: algebra_simps)
    then have "\<lfloor>fst p * fps s\<rfloor> + 1 \<le> \<lfloor>(fst p + snd p) * fps s\<rfloor>"
      by (metis floor_mono floor_add_int of_int_1)
    moreover have "0 \<le> fst p * fps s" "0 \<le> (fst p + snd p) * fps s"
      using t d assms(1) by simp_all
    ultimately show ?thesis by (simp add: frames_of_def py_int_def)
  qed
  then show ?thesis by auto
qed

lemma random_unit_mid: "random_unit mid_draws = (1 / 2, mid_draws)"
  by (simp add: random_unit_def mid_draws_def)

lemma uniform_mid: "uniform a b mid_draws = ((a + b) / 2, mid_draws)"
  by (simp add: uniform_def random_unit_mid field_simps)

lemma loop_video30: "time_based_loop video30 2 mid_draws [] = ([(60, 585), (780, 1305)], mid_draws)"
  by (simp add: time_based_loop.simps video30_def uniform_mid py_int_def duration_def
      rally_lo_def rally_hi_def avg_rally_duration_def)

lemma trace_video30: "time_based_trace video30 2 mid_draws = [(2, 35 / 2), (26, 35 / 2)]"
  by (simp add: time_based_trace.simps video30_def uniform_mid py_int_def duration_def
      rally_lo_def rally_hi_def avg_rally_duration_def)

section \<open>Ordered segment lists\<close>

lemma length_rolling_mean: "length (rolling_mean w xs) = length xs"
  by (simp add: rolling_mean_def)

lemma frame_add_columns: "frame (add_columns a b m v) = frame m"
  by (simp add: add_columns_def)

lemma frames_map2:
  "length ys = length xs \<Longrightarrow> map frame (map2 (add_columns a b) xs ys) = map frame xs"
  by (induction xs ys rule: list_induct2') (simp_all add: frame_add_columns)

lemma classify_frames: "map frame (classify s md) = map frame md"
  unfolding classify_def Let_def
  by (rule frames_map2) (simp add: length_rolling_mean)

lemma ordered_weak:
  assumes "sorted_wrt (\<lambda>p q. snd p \<le> fst q) segs" and "\<forall>p\<in>set segs. fst p \<le> snd p"
  shows "non_overlapping segs \<and> sorted (map fst (segs :: segment list))"
proof
  show "non_overlapping segs"
    unfolding non_overlapping_def
  proof (intro allI impI)
    fix i assume "Suc i < length segs"
    from sorted_wrt_nth_less [OF assms(1) _ this, of i]
    show "snd (segs ! i) \<le> fst (segs ! Suc i)" by simp
  qed
  have "sorted_wrt (\<lambda>p q. fst p \<le> fst q) segs"
    using assms by (induction segs) (auto intro: order_trans)
  then show "sorted (map fst segs)" by (simp add: sorted_wrt_map)
qed

lemma ordered_strict:
  assumes "sorted_wrt (\<lambda>p q. snd p \<le> fst q) segs" and "\<forall>p\<in>set segs. fst p < snd p"
  shows "sorted_wrt (<) (map fst (segs :: segment list))"
proof -
  have "sorted_wrt (\<lambda>p q. fst p < fst q) segs"
    using assms by (induction segs) (auto intro: less_le_trans)
  then show ?thesis by (simp add: sorted_wrt_map)
qed

lemma segs_ok_weaken:
  assumes "segs_ok segs"
  shows "sorted_wrt (\<lambda>p q. snd p \<le> fst q) segs"
  using assms unfolding segs_ok_def
  by (auto intro: sorted_wrt_mono_rel [where P = "\<lambda>p q. snd p < fst q"])

lemma fallback_trace_eq:
  "fst (create_time_based_rallies s g) = map (frames_of s) (time_based_trace s 2 g)"
  by (simp add: create_time_based_rallies_def loop_trace)

lemma detect_cases:
  "fst (detect_rally_boundaries s md g) = fst (create_time_based_rallies s g) \<or>
   fst (detect_rally_boundaries s md g) = detect_segments s (classify s md)"
  by (simp add: detect_rally_boundaries_def Let_def)

section \<open>The fallback segments in frames\<close>

lemma uniform_zero: "uniform a b zero_draws = (a, zero_draws)"
  by (simp add: uniform_def random_unit_def zero_draws_def)

lemma loop_ntsc:
  "time_based_loop video_ntsc 2 zero_draws [] =
     ([(59, 209), (299, 449), (539, 689), (779, 929), (1018, 1168), (1258, 1408),
       (1498, 1648)], zero_draws)"
  by (simp add: time_based_loop.simps video_ntsc_def uniform_zero py_int_def duration_def
      rally_lo_def rally_hi_def avg_rally_duration_def)

lemma frames_of_bounds:
  assumes "0 < fps s" and "0 \<le> fst p" and "0 \<le> snd p"
  shows "fst p * fps s - 1 < real_of_int (fst (frames_of s p))
       \<and> real_of_int (fst (frames_of s p)) \<le> fst p * fps s
       \<and> (fst p + snd p) * fps s - 1 < real_of_int (snd (frames_of s p))
       \<and> real_of_int (snd (frames_of s p)) \<le> (fst p + snd p) * fps s"
proof -
  have "0 \<le> fst p * fps s" "0 \<le> (fst p + snd p) * fps s"
    using assms by simp_all
  then have "fst (frames_of s p) = \<lfloor>fst p * fps s\<rfloor>"
    "snd (frames_of s p) = \<lfloor>(fst p + snd p) * fps s\<rfloor>"
    by (simp_all add: frames_of_def py_int_def)
  then show ?thesis by (simp; linarith?)
qed

lemma gaps_nth:
  assumes "Suc i < length tr"
  shows "gaps tr ! i = fst (tr ! Suc i) - (fst (tr ! i) + snd (tr ! i))
       \<and> gaps tr ! i \<in> set (gaps tr)"
proof -
  have l: "i < length (gaps tr)" using assms by (simp add: gaps_def)
  have m: "gaps tr ! i \<in> set (gaps tr)" using l by (rule nth_mem)
  have "gaps tr ! i = fst (tl tr ! i) - (fst (tr ! i) + snd (tr ! i))"
    using assms by (simp add: gaps_def)
  moreover have "tl tr ! i = tr ! Suc i" using assms by (simp add: nth_tl)
  ultimately have "gaps tr ! i = fst (tr ! Suc i) - (fst (tr ! i) + snd (tr ! i))" by simp
  with m show ?thesis by (intro conjI)
qed

lemma fallback_frames:
  assumes "0 < fps s"
  shows "(\<forall>seg\<in>set (fst (create_time_based_rallies s g)).
            2 * fps s - 1 < real_of_int (fst seg) \<and>
            rally_lo s * fps s - 1 < real_of_int (snd seg - fst seg) \<and>
            real_of_int (snd seg - fst seg) < rally_hi s * fps s + 1) \<and>
         (\<forall>i. Suc i < length (fst (create_time_based_rallies s g)) \<longrightarrow>
            3 * fps s - 1 < real_of_int (fst (fst (create_time_based_rallies s g) ! Suc i)
                                           - snd (fst (create_time_based_rallies s g) ! i)) \<and>
            real_of_int (fst (fst (create_time_based_rallies s g) ! Suc i)
                         - snd (fst (create_time_based_rallies s g) ! i)) < 10 * fps s + 1)"
proof -
  let ?tr = "time_based_trace s 2 g"
  let ?f = "fps s"
  have el: "2 \<le> fst p \<and> rally_lo s \<le> snd p \<and> snd p \<le> rally_hi s" if "p \<in> set ?tr" for p
    using trace_elems [of s 2 g] that by blast
  have nn: "0 \<le> fst p \<and> 0 \<le> snd p" if "p \<in> set ?tr" for p
    using el [OF that] rally_lo_hi [of s] by linarith
  have one: "2 * ?f - 1 < real_of_int (fst (frames_of s p)) \<and>
            rally_lo s * ?f - 1 < real_of_int (snd (frames_of s p) - fst (frames_of s p)) \<and>
            real_of_int (snd (frames_of s p) - fst (frames_of s p)) < rally_hi s * ?f + 1"
    if p: "p \<in> set ?tr" for p
  proof -
    note b = frames_of_bounds [OF assms, of p] nn [OF p]
    have a1: "2 * ?f \<le> fst p * ?f"
      using el [OF p] assms by (intro mult_right_mono) simp_all
    have a2: "rally_lo s * ?f \<le> snd p * ?f"
      using el [OF p] assms by (intro mult_right_mono) simp_all
    have a3: "snd p * ?f \<le> rally_hi s * ?f"
      using el [OF p] assms by (intro mult_right_mono) simp_all
    have a4: "(fst p + snd p) * ?f = fst p * ?f + snd p * ?f" by (simp add: algebra_simps)
    show ?thesis using b a1 a2 a3 a4 by (simp; linarith?)
  qed
  have two: "3 * ?f - 1 < real_of_int (fst (frames_of s (?tr ! Suc i)) - snd (frames_of s (?tr ! i)))
      \<and> real_of_int (fst (frames_of s (?tr ! Suc i)) - snd (frames_of s (?tr ! i))) < 10 * ?f + 1"
    if i: "Suc i < length ?tr" for i
  proof -
    let ?p = "?tr ! i" and ?q = "?tr ! Suc i"
    have p: "?p \<in> set ?tr" and q: "?q \<in> set ?tr" using i by simp_all
    note bp = frames_of_bounds [OF assms, of ?p] nn [OF p]
    note bq = frames_of_bounds [OF assms, of ?q] nn [OF q]
    define v where "v = fst ?q - (fst ?p + snd ?p)"
    have v: "3 \<le> v \<and> v \<le> 10"
      using gaps_nth [OF i] trace_gaps [of s 2 g] unfolding v_def by metis
    have a1: "3 * ?f \<le> v * ?f" using v assms by (intro mult_right_mono) simp_all
    have a2: "v * ?f \<le> 10 * ?f" using v assms by (intro mult_right_mono) simp_all
    have a3: "fst ?q * ?f = (fst ?p + snd ?p) * ?f + v * ?f"
      unfolding v_def by (simp add: algebra_simps)
    show ?thesis using bp bq a1 a2 a3 by (simp; linarith?)
  qed
  show ?thesis
    unfolding fallback_trace_eq using one two by simp
qed

section \<open>Properties of the adaptive thresholder\<close>

lemma sqrt_less_iff: "0 \<le> v \<Longrightarrow> (sqrt v < c) = (0 < c \<and> v < c\<^sup>2)"
proof
  assume v: "0 \<le> v" and "sqrt v < c"
  then have c: "0 < c" by (meson le_less_trans real_sqrt_ge_zero)
  have "sqrt v < sqrt (c\<^sup>2)" using \<open>sqrt v < c\<close> c by simp
  then have "v < c\<^sup>2" by (simp only: real_sqrt_less_iff)
  with c show "0 < c \<and> v < c\<^sup>2" by simp
next
  assume v: "0 \<le> v" and "0 < c \<and> v < c\<^sup>2"
  then show "sqrt v < c" by (simp add: real_less_lsqrt)
qed

lemma series_var_nonneg: "0 \<le> series_var xs"
proof (cases xs)
  case Nil
  then show ?thesis by (simp add: series_var_def)
next
  case (Cons a list)
  have "0 \<le> sum_list (map (\<lambda>v. (v - series_mean xs)\<^sup>2) xs)"
    by (rule sum_list_nonneg) auto
  moreover have "0 \<le> real (length xs) - 1" using Cons by simp
  ultimately show ?thesis by (simp add: series_var_def)
qed

lemma active_iff:
  "(v > active_threshold xs) = (series_mean xs < v \<and> series_var xs < 4 * (v - series_mean xs)\<^sup>2)"
proof -
  have "(v > active_threshold xs) = (sqrt (series_var xs) < 2 * (v - series_mean xs))"
    by (simp add: active_threshold_def series_std_def field_simps)
  also have "\<dots> = (0 < 2 * (v - series_mean xs) \<and> series_var xs < (2 * (v - series_mean xs))\<^sup>2)"
    by (rule sqrt_less_iff [OF series_var_nonneg])
  finally show ?thesis by (simp add: power2_eq_square algebra_simps)
qed

lemma idle_iff:
  "(v < idle_threshold xs) = (v < series_mean xs \<and> 9 * series_var xs < 100 * (series_mean xs - v)\<^sup>2)"
proof -
  have "(v < idle_threshold xs) = (sqrt (9 * series_var xs) < 10 * (series_mean xs - v))"
    by (simp add: idle_threshold_def series_std_def field_simps real_sqrt_mult)
  also have "\<dots> = (0 < 10 * (series_mean xs - v)
      \<and> 9 * series_var xs < (10 * (series_mean xs - v))\<^sup>2)"
    by (rule sqrt_less_iff) (simp add: series_var_nonneg)
  finally show ?thesis by (simp add: power2_eq_square algebra_simps)
qed

lemma classify_rows:
  assumes "rolling_mean (window_size s) (map motion md) = sm"
    and "series_mean sm = m" and "series_var sm = c"
  shows "classify s md =
     map2 (\<lambda>r v. \<lparr>frame = frame r, time = time r, motion = motion r, motion_smooth = v,
                   active = (m < v \<and> c < 4 * (v - m)\<^sup>2),
                   idle = (v < m \<and> 9 * c < 100 * (m - v)\<^sup>2)\<rparr>) md sm"
  unfolding classify_def Let_def assms(1) add_columns_def active_iff idle_iff assms(2,3) ..

lemma ramp_motion: "map motion (motion_series video10 ramp_scores) = ramp_scores"
  by (simp add: motion_series_def ramp_scores_def)

lemma ramp_smooth:
  "rolling_mean (window_size video10) ramp_scores = [20, 15, 14, 13, 15, 19, 25, 29, 30, 30]"
  by (simp add: window_size_def video10_def py_int_def ramp_scores_def rolling_mean_def
      rolling_window_def series_mean_def)

lemma ramp_mean: "series_mean [20, 15, 14, 13, 15, 19, 25, 29, 30, 30] = 21"
  by (simp add: series_mean_def)

lemma ramp_var: "series_var [20, 15, 14, 13, 15, 19, 25, 29, 30, 30] = 48"
  by (simp add: series_var_def ramp_mean)

lemma ramp_rows:
  "classify video10 (motion_series video10 ramp_scores) =
     map2 (\<lambda>r v. \<lparr>frame = frame r, time = time r, motion = motion r, motion_smooth = v,
                   active = (21 < v \<and> 48 < 4 * (v - 21)\<^sup>2),
                   idle = (v < 21 \<and> 9 * 48 < 100 * (21 - v)\<^sup>2)\<rparr>)
       (motion_series video10 ramp_scores) [20, 15, 14, 13, 15, 19, 25, 29, 30, 30]"
  by (rule classify_rows [OF _ ramp_mean ramp_var]) (simp add: ramp_motion ramp_smooth)

lemma ramp_row5:
  "motion_smooth (classify video10 (motion_series video10 ramp_scores) ! 5) = 19"
  "\<not> idle (classify video10 (motion_series video10 ramp_scores) ! 5)"
  "\<not> active (classify video10 (motion_series video10 ramp_scores) ! 5)"
  unfolding ramp_rows by (simp_all add: motion_series_def ramp_scores_def)

lemma ramp_row6:
  "motion_smooth (classify video10 (motion_series video10 ramp_scores) ! 6) = 25"
  "\<not> idle (classify video10 (motion_series video10 ramp_scores) ! 6)"
  "active (classify video10 (motion_series video10 ramp_scores) ! 6)"
  unfolding ramp_rows by (simp_all add: motion_series_def ramp_scores_def)

lemma ramp_population:
  "population_std [20, 15, 14, 13, 15, 19, 25, 29, 30, 30] = sqrt (216 / 5)"
  by (simp add: population_std_def ramp_mean)

lemma classify_row_cases:
  assumes "r \<in> set (classify s md)"
  shows "active r = (motion_smooth r > active_threshold (rolling_mean (window_size s) (map motion md)))
    \<and> idle r = (motion_smooth r < idle_threshold (rolling_mean (window_size s) (map motion md)))"
proof -
  from assms obtain m v where
    "r = add_columns (active_threshold (rolling_mean (window_size s) (map motion md)))
           (idle_threshold (rolling_mean (window_size s) (map motion md))) m v"
    unfolding classify_def Let_def by (auto simp: set_zip)
  then show ?thesis by (simp add: add_columns_def)
qed

lemma smooth_map2:
  "length ys = length xs \<Longrightarrow> map motion_smooth (map2 (add_columns a b) xs ys) = ys"
  by (induction xs ys rule: list_induct2') (simp_all add: add_columns_def)

lemma classify_smooth:
  "map motion_smooth (classify s md) = rolling_mean (window_size s) (map motion md)"
  unfolding classify_def Let_def
  by (rule smooth_map2) (simp add: length_rolling_mean)

section \<open>The detector on a short burst of motion\<close>

lemma spike_motion: "map motion (motion_series video30 spike_scores) = spike_scores"
  by (simp add: motion_series_def spike_scores_def)

lemma spike_rolling: "rolling_mean (window_size video30) spike_scores = spike_smooth"
  by (simp add: window_size_def video30_def py_int_def spike_scores_def spike_smooth_def
      rolling_mean_def rolling_window_def series_mean_def)

lemma spike_mean: "series_mean spike_smooth = 261395 / 28"
  by (simp add: series_mean_def spike_smooth_def)

lemma spike_var: "series_var spike_smooth = 20140405099 / 84"
  by (simp add: series_var_def spike_mean) (simp add: spike_smooth_def power2_eq_square)

lemma spike_rows:
  "classify video30 (motion_series video30 spike_scores) =
     map2 (\<lambda>r v. \<lparr>frame = frame r, time = time r, motion = motion r, motion_smooth = v,
                   active = (261395 / 28 < v \<and> 20140405099 / 84 < 4 * (v - 261395 / 28)\<^sup>2),
                   idle = (v < 261395 / 28
                           \<and> 9 * (20140405099 / 84) < 100 * (261395 / 28 - v)\<^sup>2)\<rparr>)
       (motion_series video30 spike_scores) spike_smooth"
  by (rule classify_rows [OF _ spike_mean spike_var]) (simp add: spike_motion spike_rolling)

lemma spike_flags:
  "map (\<lambda>r. (frame r, active r, idle r)) (classify video30 (motion_series video30 spike_scores))
   = [(6, True, False), (12, True, False), (18, True, False), (24, True, False), (30,
      True, False), (36, True, False), (42, True, False), (48, True, False), (54,
      False, True), (60, False, True), (66, False, True), (72, False, True), (78,
      False, True), (84, False, True), (90, False, True), (96, False, True), (102,
      False, True), (108, False, True), (114, False, True), (120, False, True), (126,
      False, True), (132, False, True), (138, False, True), (144, False, True), (150,
      False, True), (156, False, True), (162, False, True), (168, False, True)]"
  unfolding spike_rows
  by (simp add: motion_series_def spike_scores_def spike_smooth_def sample_interval_def
      video30_def py_int_def power2_eq_square)

lemma spike_detect:
  "detect_segments video30 (classify video30 (motion_series video30 spike_scores)) = [(6, 54)]"
  unfolding spike_rows
  by (simp add: motion_series_def spike_scores_def spike_smooth_def sample_interval_def
      video30_def py_int_def power2_eq_square detect_segments_def walk_rows_def
      boundary_step_def init_state_def min_rally_frames_def idle_threshold_frames_def
      MIN_RALLY_DURATION_def IDLE_THRESHOLD_def)

lemma guard_always_true:
  assumes "0 < fps s" and "rally_start st < i" and "frame row - i > idle_threshold_frames s"
  shows "frame row - rally_start st > min_rally_frames s"
proof -
  have "min_rally_frames s \<le> idle_threshold_frames s"
    unfolding min_rally_frames_def idle_threshold_frames_def MIN_RALLY_DURATION_def
      IDLE_THRESHOLD_def
    using assms(1) by (intro py_int_mono) simp
  with assms(2,3) show ?thesis by linarith
qed

section \<open>The detector on raw motion scores\<close>

text \<open>
  Two bursts of motion with more than 4 seconds of stillness after each are found as two
  segments.
\<close>

lemma two_bursts_motion: "map motion (motion_series video30 two_bursts) = two_bursts"
  by (simp add: motion_series_def two_bursts_def)

lemma two_bursts_rolling: "rolling_mean (window_size video30) two_bursts = two_bursts_smooth"
  by (simp add: window_size_def video30_def py_int_def two_bursts_def
      two_bursts_smooth_def rolling_mean_def rolling_window_def series_mean_def)

lemma two_bursts_mean: "series_mean two_bursts_smooth = 400"
  by (simp add: series_mean_def two_bursts_smooth_def)

lemma two_bursts_var: "series_var two_bursts_smooth = 35200000 / 237"
  by (simp add: series_var_def two_bursts_mean) (simp add: two_bursts_smooth_def power2_eq_square)

lemma two_bursts_rows:
  "classify video30 (motion_series video30 two_bursts) =
     map2 (\<lambda>r v. \<lparr>frame = frame r, time = time r, motion = motion r, motion_smooth = v,
                   active = (400 < v \<and> 35200000 / 237 < 4 * (v - 400)\<^sup>2),
                   idle = (v < 400
                           \<and> 9 * (35200000 / 237) < 100 * (400 - v)\<^sup>2)\<rparr>)
       (motion_series video30 two_bursts) two_bursts_smooth"
  by (rule classify_rows [OF _ two_bursts_mean two_bursts_var]) (simp add: two_bursts_motion two_bursts_rolling)

lemma two_bursts_detect:
  "detect_segments video30 (classify video30 (motion_series video30 two_bursts)) = [(6, 120), (252, 360)]"
  unfolding two_bursts_rows
  by (simp add: motion_series_def two_bursts_def two_bursts_smooth_def sample_interval_def
      video30_def py_int_def power2_eq_square detect_segments_def walk_rows_def
      boundary_step_def init_state_def min_rally_frames_def idle_threshold_frames_def
      MIN_RALLY_DURATION_def IDLE_THRESHOLD_def)

text \<open>
  Raw scores that alternate 4 seconds of motion with 4 seconds of stillness, sampled every
  6 frames, are smoothed over 15 samples, that is over 3 seconds.
\<close>

lemma raw_alternating_motion: "map motion (motion_series video24 raw_alternating) = raw_alternating"
  by (simp add: motion_series_def raw_alternating_def)

lemma raw_alternating_rolling: "rolling_mean (window_size video24) raw_alternating = raw_alternating_smooth"
  by (simp add: window_size_def video24_def py_int_def raw_alternating_def
      raw_alternating_smooth_def rolling_mean_def rolling_window_def series_mean_def)

lemma raw_alternating_mean: "series_mean raw_alternating_smooth = 500"
  by (simp add: series_mean_def raw_alternating_smooth_def)

lemma raw_alternating_var: "series_var raw_alternating_smooth = 158000000 / 1071"
  by (simp add: series_var_def raw_alternating_mean) (simp add: raw_alternating_smooth_def power2_eq_square)

lemma raw_alternating_rows:
  "classify video24 (motion_series video24 raw_alternating) =
     map2 (\<lambda>r v. \<lparr>frame = frame r, time = time r, motion = motion r, motion_smooth = v,
                   active = (500 < v \<and> 158000000 / 1071 < 4 * (v - 500)\<^sup>2),
                   idle = (v < 500
                           \<and> 9 * (158000000 / 1071) < 100 * (500 - v)\<^sup>2)\<rparr>)
       (motion_series video24 raw_alternating) raw_alternating_smooth"
  by (rule classify_rows [OF _ raw_alternating_mean raw_alternating_var]) (simp add: raw_alternating_motion raw_alternating_rolling)

lemma raw_alternating_detect:
  "detect_segments video24 (classify video24 (motion_series video24 raw_alternating)) = [(6, 618)]"
  unfolding raw_alternating_rows
  by (simp add: motion_series_def raw_alternating_def raw_alternating_smooth_def sample_interval_def
      video24_def py_int_def power2_eq_square detect_segments_def walk_rows_def
      boundary_step_def init_state_def min_rally_frames_def idle_threshold_frames_def
      MIN_RALLY_DURATION_def IDLE_THRESHOLD_def)

lemma raw_alternating_idle:
  "map frame (filter idle (take 40 (classify video24 (motion_series video24 raw_alternating))))
     = [138, 144, 150, 156, 162, 168, 174, 180, 186, 192, 198, 204, 210, 216, 222, 228]"
  unfolding raw_alternating_rows
  by (simp add: motion_series_def raw_alternating_def raw_alternating_smooth_def
      sample_interval_def video24_def py_int_def power2_eq_square)

lemma series_from_sorted:
  "sorted_wrt (<) (map frame (series_from s f ms)) \<and> (\<forall>r\<in>set (series_from s f ms). f \<le> frame r)"
proof (induction ms arbitrary: f)
  case Nil
  then show ?case by simp
next
  case (Cons m ms)
  have "1 \<le> sample_interval s" by (simp add: sample_interval_def)
  with Cons [of "f + sample_interval s"] show ?case by fastforce
qed

lemma motion_series_sorted: "sorted_wrt (<) (map frame (motion_series s scores))"
  by (simp add: motion_series_def series_from_sorted)

section \<open>Runs of rows in the state machine\<close>

lemma step_non_idle:
  assumes "in_rally st" and "\<not> idle row"
  shows "boundary_step m t st row = st\<lparr>idle_start := None\<rparr>"
  using assms by (simp add: boundary_step_def)

lemma step_non_idle_same:
  assumes "in_rally st" and "idle_start st = None" and "\<not> idle row"
  shows "boundary_step m t st row = st"
  using assms by (cases st) (simp add: boundary_step_def)

lemma foldl_non_idle:
  assumes "in_rally st" and "idle_start st = None" and "\<forall>r\<in>set rows. \<not> idle r"
  shows "foldl (boundary_step m t) st rows = st"
  using assms by (induction rows) (simp_all add: step_non_idle_same)

lemma foldl_spike:
  assumes "rows \<noteq> []" and "\<forall>r\<in>set rows. active r \<and> \<not> idle r"
  shows "foldl (boundary_step m t) init_state rows =
           \<lparr>rally_segments = [], in_rally = True, rally_start = frame (hd rows),
            idle_start = None\<rparr>"
proof (cases rows)
  case Nil
  with assms(1) show ?thesis by simp
next
  case (Cons r rs)
  have "boundary_step m t init_state r =
          \<lparr>rally_segments = [], in_rally = True, rally_start = frame r, idle_start = None\<rparr>"
    using assms(2) Cons by (simp add: boundary_step_def init_state_def)
  then show ?thesis
    using assms(2) Cons by (simp add: foldl_non_idle)
qed

lemma foldl_idle_pending:
  assumes "in_rally st" and "idle_start st = Some i"
    and "\<forall>r\<in>set rows. idle r \<and> frame r - i \<le> t"
  shows "foldl (boundary_step m t) st rows = st"
  using assms by (induction rows) (simp_all add: boundary_step_def)

lemma foldl_gap:
  assumes "in_rally st" and "idle_start st = None" and "gap \<noteq> []"
    and "\<forall>r\<in>set gap. idle r \<and> frame r - frame (hd gap) \<le> t"
  shows "foldl (boundary_step m t) st gap = st\<lparr>idle_start := Some (frame (hd gap))\<rparr>"
proof (cases gap)
  case Nil
  with assms(3) show ?thesis by simp
next
  case (Cons r rs)
  have "boundary_step m t st r = st\<lparr>idle_start := Some (frame r)\<rparr>"
    using assms Cons by (simp add: boundary_step_def)
  then show ?thesis
    using assms Cons by (simp add: foldl_idle_pending)
qed

lemma foldl_gap_spike:
  assumes "in_rally st" and "idle_start st = None"
    and "\<forall>r\<in>set gap. idle r \<and> frame r - frame (hd gap) \<le> t"
    and "rows \<noteq> []" and "\<forall>r\<in>set rows. \<not> idle r"
  shows "foldl (boundary_step m t) st (gap @ rows) = st"
proof (cases "gap = []")
  case True
  then show ?thesis using assms by (simp add: foldl_non_idle)
next
  case False
  obtain r rs where rows: "rows = r # rs" using assms(4) by (cases rows) auto
  let ?st = "st\<lparr>idle_start := Some (frame (hd gap))\<rparr>"
  have "boundary_step m t ?st r = st"
    using assms(1,2,5) rows by (simp add: boundary_step_def)
  then show ?thesis
    using foldl_gap [OF assms(1,2) False assms(3)] assms rows by (simp add: foldl_non_idle)
qed

lemma ramp_detect:
  "detect_segments video10 (classify video10 (motion_series video10 ramp_scores)) = []"
  unfolding ramp_rows
  by (simp add: motion_series_def ramp_scores_def sample_interval_def
      video10_def py_int_def power2_eq_square detect_segments_def walk_rows_def
      boundary_step_def init_state_def min_rally_frames_def idle_threshold_frames_def
      MIN_RALLY_DURATION_def IDLE_THRESHOLD_def)

section \<open>Properties of the hit point estimator\<close>

lemma estimate_hit_frame:
  assumes "sf \<le> ef"
  shows "sf \<le> HitPoint.frame (fst (estimate_hit s sf ef iv i g))
       \<and> HitPoint.frame (fst (estimate_hit s sf ef iv i g)) \<le> ef"
  using assms by (simp add: estimate_hit_def Let_def split: prod.splits)

lemma hits_loop_length:
  "length (fst (hits_loop s sf ef iv ks g hits)) = length hits + length ks"
  by (induction ks arbitrary: g hits) (simp_all split: prod.splits)

lemma hits_loop_frames:
  assumes "sf \<le> ef" and "\<forall>h\<in>set hits. sf \<le> HitPoint.frame h \<and> HitPoint.frame h \<le> ef"
  shows "\<forall>h\<in>set (fst (hits_loop s sf ef iv ks g hits)).
           sf \<le> HitPoint.frame h \<and> HitPoint.frame h \<le> ef"
  using assms
proof (induction ks arbitrary: g hits)
  case Nil
  then show ?case by simp
next
  case (Cons i ks)
  obtain h g' where e: "estimate_hit s sf ef iv i g = (h, g')"
    by (cases "estimate_hit s sf ef iv i g")
  have "sf \<le> HitPoint.frame h \<and> HitPoint.frame h \<le> ef"
    using estimate_hit_frame [OF Cons.prems(1), of s iv i g] e by simp
  then have "\<forall>h\<in>set (hits @ [h]). sf \<le> HitPoint.frame h \<and> HitPoint.frame h \<le> ef"
    using Cons.prems(2) by auto
  from Cons.IH [OF Cons.prems(1) this] show ?case by (simp add: e)
qed

lemma hits_loop_hd:
  "hits \<noteq> [] \<Longrightarrow> hd (fst (hits_loop s sf ef iv ks g hits)) = hd hits"
  by (induction ks arbitrary: g hits) (simp_all split: prod.splits)

lemma randint_mid: "randint (- 5) 5 mid_draws = (- 1, mid_draws)"
  by (simp add: randint_def mid_draws_def)

section \<open>Properties of the rallies that are built\<close>

lemma determine_winner_range:
  "fst (determine_winner n r g) = ''Player A'' \<or> fst (determine_winner n r g) = ''Player B''"
  by (simp add: determine_winner_def split: prod.splits)

lemma determine_end_reason_range:
  "fst (determine_end_reason d g) = ''net'' \<or> fst (determine_end_reason d g) = ''out''
   \<or> fst (determine_end_reason d g) = ''in_court''"
  by (simp add: determine_end_reason_def split: prod.splits)

lemma choice_in_set: "xs \<noteq> [] \<Longrightarrow> fst (choice xs g) \<in> set xs"
  by (simp add: choice_def)

lemma templates_nonempty: "templates r \<noteq> [] \<and> (\<forall>t\<in>set (templates r). t \<noteq> [])"
  by (simp add: templates_def)

lemma description_nonempty: "fst (generate_rally_description r g) \<noteq> []"
proof -
  have "fst (choice (templates r) g) \<noteq> []"
    using choice_in_set [of "templates r" g] templates_nonempty [of r] by blast
  then show ?thesis
    by (auto simp: generate_rally_description_def split: prod.splits option.splits)
qed

lemma build_rally_fields: "rally_fields s i seg (fst (fst (build_rally s i seg g)))"
proof -
  obtain sf ef where seg: "seg = (sf, ef)" by (cases seg)
  obtain reason g1 where r: "determine_end_reason (real_of_int (ef - sf) / fps s) g = (reason, g1)"
    by (cases "determine_end_reason (real_of_int (ef - sf) / fps s) g")
  obtain win g2 where w: "determine_winner (int i + 1) reason g1 = (win, g2)"
    by (cases "determine_winner (int i + 1) reason g1")
  obtain hits g3 where h: "estimate_hits_in_rally s sf ef g2 = (hits, g3)"
    by (cases "estimate_hits_in_rally s sf ef g2")
  let ?rally = "\<lparr>rally_number = int i + 1, start_frame = sf, end_frame = ef,
                 start_time = real_of_int sf / fps s, end_time = real_of_int ef / fps s,
                 duration = real_of_int (ef - sf) / fps s, winner = Some win,
                 end_reason = Some reason, shots = [], mistakes = [], description = [],
                 clip_path = None\<rparr>"
  obtain d g4 where de: "generate_rally_description ?rally g3 = (d, g4)"
    by (cases "generate_rally_description ?rally g3")
  have e: "fst (fst (build_rally s i (sf, ef) g)) = ?rally\<lparr>description := d\<rparr>"
    unfolding build_rally_def prod.case Let_def r w h de by simp
  have "reason = ''net'' \<or> reason = ''out'' \<or> reason = ''in_court''"
    using determine_end_reason_range [of "real_of_int (ef - sf) / fps s" g] r by simp
  moreover have "win = ''Player A'' \<or> win = ''Player B''"
    using determine_winner_range [of "int i + 1" reason g1] w by simp
  moreover have "d \<noteq> []"
    using description_nonempty [of ?rally g3] de by simp
  ultimately show ?thesis
    unfolding seg rally_fields_def e by simp
qed

lemma build_rallies_rallies:
  "\<exists>new. rallies (build_rallies s i segs st) = rallies st @ new \<and>
         length new = length segs \<and>
         (\<forall>k < length segs. rally_fields s (i + k) (segs ! k) (new ! k))"
proof (induction segs arbitrary: i st)
  case Nil
  then show ?case by simp
next
  case (Cons seg segs)
  obtain rally hits g' where b: "build_rally s i seg (gen st) = ((rally, hits), g')"
    by (cases "build_rally s i seg (gen st)") auto
  let ?st = "\<lparr>rallies = rallies st @ [rally], hit_points = hit_points st @ hits, gen = g'\<rparr>"
  have r: "rally_fields s i seg rally"
    using build_rally_fields [of s i seg "gen st"] b by simp
  from Cons.IH [of "Suc i" ?st] obtain new where
    new: "rallies (build_rallies s (Suc i) segs ?st) = rallies ?st @ new"
      "length new = length segs"
      "\<forall>k < length segs. rally_fields s (Suc i + k) (segs ! k) (new ! k)"
    by blast
  have "\<forall>k < length (seg # segs). rally_fields s (i + k) ((seg # segs) ! k) ((rally # new) ! k)"
  proof (intro allI impI)
    fix k assume "k < length (seg # segs)"
    then show "rally_fields s (i + k) ((seg # segs) ! k) ((rally # new) ! k)"
      using r new(3) by (cases k) auto
  qed
  then show ?case
    using new(1,2) b by (intro exI [of _ "rally # new"]) simp
qed

lemma segment_rallies_fields:
  "length (rallies (segment_rallies s md g)) = length (fst (detect_rally_boundaries s md g)) \<and>
   (\<forall>k < length (fst (detect_rally_boundaries s md g)).
      rally_fields s k (fst (detect_rally_boundaries s md g) ! k)
        (rallies (segment_rallies s md g) ! k))"
proof -
  obtain segs g1 where d: "detect_rally_boundaries s md g = (segs, g1)"
    by (cases "detect_rally_boundaries s md g")
  from build_rallies_rallies [of s 0 segs "\<lparr>rallies = [], hit_points = [], gen = g1\<rparr>"]
  show ?thesis by (auto simp: segment_rallies_def d)
qed

lemma build_rallies_first:
  "rallies (build_rallies s i (seg # segs) st) ! length (rallies st)
     = fst (fst (build_rally s i seg (gen st)))"
proof -
  obtain rally hits g' where b: "build_rally s i seg (gen st) = ((rally, hits), g')"
    by (cases "build_rally s i seg (gen st)") auto
  let ?st = "\<lparr>rallies = rallies st @ [rally], hit_points = hit_points st @ hits, gen = g'\<rparr>"
  from build_rallies_rallies [of s "Suc i" segs ?st] obtain new where
    "rallies (build_rallies s (Suc i) segs ?st) = rallies ?st @ new" by blast
  then show ?thesis by (simp add: b nth_append)
qed

lemma build_rally_outcome:
  assumes "determine_end_reason (real_of_int (ef - sf) / fps s) g = (reason, g1)"
    and "determine_winner (int i + 1) reason g1 = (win, g2)"
  shows "winner (fst (fst (build_rally s i (sf, ef) g))) = Some win
       \<and> end_reason (fst (fst (build_rally s i (sf, ef) g))) = Some reason"
  unfolding build_rally_def prod.case Let_def assms
  by (simp split: prod.splits)

lemma detect_video30: "detect_rally_boundaries video30 [] mid_draws = ([(60, 585), (780, 1305)], mid_draws)"
  by (simp add: detect_rally_boundaries_def create_time_based_rallies_def loop_video30)

section \<open>Properties of the progress notifications\<close>

lemma async_loop_percent:
  assumes "sorted (map percent out)"
    and "\<forall>e\<in>set out. 0 \<le> percent e \<and> percent e \<le> 70 + real i / real n * 25"
    and "i + length segs \<le> n"
  shows "sorted (map percent (snd (build_rallies_async s n i segs (st, out)))) \<and>
         (\<forall>e\<in>set (snd (build_rallies_async s n i segs (st, out))).
            0 \<le> percent e \<and> percent e \<le> 95)"
  using assms
proof (induction segs arbitrary: i st out)
  case Nil
  have "real i / real n \<le> 1" using Nil.prems(3) by (cases "n = 0") simp_all
  then have "70 + real i / real n * 25 \<le> 95"
    using mult_right_mono [of "real i / real n" 1 25] by simp
  with Nil.prems show ?case by fastforce
next
  case (Cons seg segs)
  obtain rally hits g' where b: "build_rally s i seg (gen st) = ((rally, hits), g')"
    by (cases "build_rally s i seg (gen st)") auto
  let ?p = "70 + real i / real n * 25"
  let ?y = "Yield ?p (''Processing rally '' @ str_nat (i + 1) @ ''/'' @ str_nat n) (Some rally)"
  let ?st = "\<lparr>rallies = rallies st @ [rally], hit_points = hit_points st @ hits, gen = g'\<rparr>"
  have n: "0 < n" using Cons.prems(3) by simp
  have le: "?p \<le> 70 + real (Suc i) / real n * 25"
    using n by (simp add: divide_right_mono)
  have a: "sorted (map percent (out @ [?y]))"
    using Cons.prems(1,2) by (simp add: sorted_append)
  have c: "\<forall>e\<in>set (out @ [?y]). 0 \<le> percent e \<and> percent e \<le> 70 + real (Suc i) / real n * 25"
    using Cons.prems(2) le by auto
  have d: "Suc i + length segs \<le> n" using Cons.prems(3) by simp
  from Cons.IH [OF a c d, of ?st] show ?case by (simp add: b)
qed

lemma async_loop_prefix:
  "\<exists>rest. snd (build_rallies_async s n i segs (st, out)) = out @ rest"
proof (induction segs arbitrary: i st out)
  case Nil
  then show ?case by simp
next
  case (Cons seg segs)
  obtain rally hits g' where b: "build_rally s i seg (gen st) = ((rally, hits), g')"
    by (cases "build_rally s i seg (gen st)") auto
  let ?y = "Yield (70 + real i / real n * 25)
              (''Processing rally '' @ str_nat (i + 1) @ ''/'' @ str_nat n) (Some rally)"
  let ?st = "\<lparr>rallies = rallies st @ [rally], hit_points = hit_points st @ hits, gen = g'\<rparr>"
  from Cons.IH [of "Suc i" ?st "out @ [?y]"] obtain rest where
    "snd (build_rallies_async s n (Suc i) segs (?st, out @ [?y])) = (out @ [?y]) @ rest"
    by blast
  then have "snd (build_rallies_async s n i (seg # segs) (st, out)) = out @ (?y # rest)"
    by (simp add: b)
  then show ?case by blast
qed

lemma async_first:
  "hd (snd (segment_rallies_async s True md g)) = Callback 0 ''Starting video analysis...''"
proof -
  obtain segs g1 where d: "detect_rally_boundaries s md g = (segs, g1)"
    by (cases "detect_rally_boundaries s md g")
  let ?out2 = "(callback True 0 ''Starting video analysis...''
                 @ [Yield 40 ''Motion analysis complete'' None]
                 @ callback True 45 ''Detecting rally boundaries...'')
                 @ [Yield 60 (''Found '' @ str_nat (length segs) @ '' rally segments'') None]
                 @ callback True 70 ''Building rally data...''"
  obtain st out3 where l: "build_rallies_async s (length segs) 0 segs
      (\<lparr>rallies = [], hit_points = [], gen = g1\<rparr>, ?out2) = (st, out3)"
    by (cases "build_rallies_async s (length segs) 0 segs
      (\<lparr>rallies = [], hit_points = [], gen = g1\<rparr>, ?out2)")
  have e: "snd (segment_rallies_async s True md g)
      = out3 @ [Yield 95 (''Completed: '' @ str_nat (length (rallies st))
                           @ '' rallies detected'') None]"
    unfolding segment_rallies_async_def Let_def d prod.case l by simp
  obtain rest where "out3 = ?out2 @ rest"
    using async_loop_prefix [of s "length segs" 0 segs
        "\<lparr>rallies = [], hit_points = [], gen = g1\<rparr>" ?out2]
    unfolding l snd_conv by blast
  then show ?thesis unfolding e by (simp add: callback_def)
qed

section \<open>The claims\<close>

text \<open>
  Claim C1. The claim asks that every detected segment lasts at least
  \<open>MIN_RALLY_DURATION\<close> and that a short spike followed by persistent idle gives no
  segment. The detector compares the minimum with the distance from the rally start to the
  current frame, which by then lies more than the idle threshold after the start of the
  idle period, and emits the span up to the start of the idle period. On the burst below the
  rows are active for eight samples (frames 6 to 48) and idle from frame 54 on, and the
  segment (6, 54) of 1.6 seconds is returned.
\<close>

theorem short_spike_emitted:
  "map (\<lambda>r. (frame r, active r, idle r)) (classify video30 (motion_series video30 spike_scores))
   = [(6, True, False), (12, True, False), (18, True, False), (24, True, False), (30,
      True, False), (36, True, False), (42, True, False), (48, True, False), (54,
      False, True), (60, False, True), (66, False, True), (72, False, True), (78,
      False, True), (84, False, True), (90, False, True), (96, False, True), (102,
      False, True), (108, False, True), (114, False, True), (120, False, True), (126,
      False, True), (132, False, True), (138, False, True), (144, False, True), (150,
      False, True), (156, False, True), (162, False, True), (168, False, True)]
   \<and> fst (detect_rally_boundaries video30 (motion_series video30 spike_scores) mid_draws)
     = [(6, 54)]
   \<and> real_of_int (54 - 6) / fps video30 < MIN_RALLY_DURATION"
proof -
  have "length (motion_series video30 spike_scores) = 28"
    by (simp add: motion_series_def spike_scores_def)
  then have a: "fst (detect_rally_boundaries video30 (motion_series video30 spike_scores)
      mid_draws) = [(6, 54)]"
    by (simp add: detect_rally_boundaries_def spike_detect)
  have b: "real_of_int (54 - 6) / fps video30 < MIN_RALLY_DURATION"
    by (simp add: MIN_RALLY_DURATION_def video30_def)
  from spike_flags a b show ?thesis by (intro conjI)
qed

text \<open>
  Claim C2. In the list that boundary detection returns, whether it comes from the
  boundary detector or from the fallback segmenter, every segment ends at or before the
  start of the next one and the segments are sorted by start frame, for a positive frame
  rate and motion samples in increasing frame order. The same holds for the list of the
  fallback segmenter on its own. From a frame rate of 1/5 on, the start frames increase
  strictly.
\<close>

theorem segments_ordered:
  assumes "0 < fps s" and "sorted_wrt (<) (map frame md)"
  shows "non_overlapping (fst (detect_rally_boundaries s md g)) \<and>
         sorted (map fst (fst (detect_rally_boundaries s md g))) \<and>
         non_overlapping (fst (create_time_based_rallies s g)) \<and>
         sorted (map fst (fst (create_time_based_rallies s g))) \<and>
         (1 / 5 \<le> fps s \<longrightarrow>
            sorted_wrt (<) (map fst (fst (detect_rally_boundaries s md g))) \<and>
            sorted_wrt (<) (map fst (fst (create_time_based_rallies s g))))"
proof -
  let ?fb = "fst (create_time_based_rallies s g)"
  let ?dt = "detect_segments s (classify s md)"
  have fb: "sorted_wrt (\<lambda>p q. snd p \<le> fst q) ?fb" "\<forall>p\<in>set ?fb. fst p \<le> snd p"
    using trace_frames_sorted [OF assms(1), of 2 g] by (simp_all add: fallback_trace_eq)
  have fbs: "\<forall>p\<in>set ?fb. fst p < snd p" if "1 / 5 \<le> fps s"
    using trace_frames_strict [OF that, of 2 g] by (simp add: fallback_trace_eq)
  have ok: "segs_ok ?dt"
    using assms by (intro detect_segments_ok) (simp_all add: classify_frames)
  then have dt: "sorted_wrt (\<lambda>p q. snd p \<le> fst q) ?dt" "\<forall>p\<in>set ?dt. fst p < snd p"
    by (simp_all add: segs_ok_weaken) (simp add: segs_ok_def)
  have dtw: "\<forall>p\<in>set ?dt. fst p \<le> snd p" using dt(2) by auto
  from detect_cases [of s md g] show ?thesis
  proof
    assume "fst (detect_rally_boundaries s md g) = ?fb"
    then show ?thesis
      using ordered_weak [OF fb] ordered_strict [OF fb(1) fbs] by simp
  next
    assume "fst (detect_rally_boundaries s md g) = ?dt"
    then show ?thesis
      using ordered_weak [OF fb] ordered_strict [OF fb(1) fbs] ordered_weak [OF dt(1) dtw]
        ordered_strict [OF dt] by simp
  qed
qed

theorem segments_ordered_witness:
  "0 < fps video30 \<and> 1 / 5 \<le> fps video30
   \<and> sorted_wrt (<) (map frame (motion_series video30 two_bursts))
   \<and> fst (detect_rally_boundaries video30 (motion_series video30 two_bursts) mid_draws)
       = [(6, 120), (252, 360)]
   \<and> fst (create_time_based_rallies video30 mid_draws) = [(60, 585), (780, 1305)]
   \<and> non_overlapping (fst (detect_rally_boundaries video30 (motion_series video30 two_bursts)
         mid_draws))
   \<and> sorted_wrt (<) (map fst (fst (detect_rally_boundaries video30
         (motion_series video30 two_bursts) mid_draws)))
   \<and> non_overlapping (fst (create_time_based_rallies video30 mid_draws))
   \<and> sorted_wrt (<) (map fst (fst (create_time_based_rallies video30 mid_draws)))"
proof -
  have h1: "0 < fps video30" by (simp add: video30_def)
  have h2: "sorted_wrt (<) (map frame (motion_series video30 two_bursts))"
    by (rule motion_series_sorted)
  have h3: "1 / 5 \<le> fps video30" by (simp add: video30_def)
  have "length (motion_series video30 two_bursts) = 80"
    by (simp add: motion_series_def two_bursts_def)
  then have e1: "fst (detect_rally_boundaries video30 (motion_series video30 two_bursts)
      mid_draws) = [(6, 120), (252, 360)]"
    by (simp add: detect_rally_boundaries_def two_bursts_detect)
  have e2: "fst (create_time_based_rallies video30 mid_draws) = [(60, 585), (780, 1305)]"
    by (simp add: create_time_based_rallies_def loop_video30)
  from segments_ordered [OF h1 h2, of mid_draws] h1 h2 h3 e1 e2 show ?thesis by simp
qed

text \<open>
  Claim C3, as amended. The adaptive thresholder takes the mean and the sample standard
  deviation (divisor \<open>n - 1\<close>, the default of pandas) of the smoothed series, sets the
  active threshold to mean + 0.5 * std and the idle threshold to mean - 0.3 * std, and
  marks a row active iff its smoothed value is above the active threshold and idle iff
  it is below the idle threshold; no row is both.
\<close>

theorem thresholds_sample_std:
  "(let sm = rolling_mean (window_size s) (map motion md);
        m = sum_list sm / real (length sm);
        sd = sqrt (sum_list (map (\<lambda>v. (v - m)\<^sup>2) sm) / (real (length sm) - 1))
    in map motion_smooth (classify s md) = sm \<and>
       active_threshold sm = m + 0.5 * sd \<and> idle_threshold sm = m - 0.3 * sd \<and>
       (\<forall>r\<in>set (classify s md).
          (active r \<longleftrightarrow> motion_smooth r > m + 0.5 * sd) \<and>
          (idle r \<longleftrightarrow> motion_smooth r < m - 0.3 * sd) \<and>
          \<not> (active r \<and> idle r)))"
proof -
  let ?sm = "rolling_mean (window_size s) (map motion md)"
  have a: "active_threshold ?sm = sum_list ?sm / real (length ?sm)
      + 0.5 * sqrt (sum_list (map (\<lambda>v. (v - sum_list ?sm / real (length ?sm))\<^sup>2) ?sm)
                    / (real (length ?sm) - 1))"
    by (simp add: active_threshold_def series_std_def series_var_def series_mean_def)
  have i: "idle_threshold ?sm = sum_list ?sm / real (length ?sm)
      - 0.3 * sqrt (sum_list (map (\<lambda>v. (v - sum_list ?sm / real (length ?sm))\<^sup>2) ?sm)
                    / (real (length ?sm) - 1))"
    by (simp add: idle_threshold_def series_std_def series_var_def series_mean_def)
  have n: "\<not> (v > active_threshold ?sm \<and> v < idle_threshold ?sm)" for v
    by (auto simp: active_iff idle_iff)
  have key: "\<forall>r\<in>set (classify s md).
          (active r \<longleftrightarrow> motion_smooth r > active_threshold ?sm) \<and>
          (idle r \<longleftrightarrow> motion_smooth r < idle_threshold ?sm) \<and>
          \<not> (active r \<and> idle r)"
    using classify_row_cases [of _ s md] n by blast
  show ?thesis
    unfolding Let_def a [symmetric] i [symmetric]
    using key classify_smooth [of s md] by blast
qed

theorem thresholds_sample_std_witness:
  "classify video10 (motion_series video10 ramp_scores) ! 6
     \<in> set (classify video10 (motion_series video10 ramp_scores))
   \<and> active (classify video10 (motion_series video10 ramp_scores) ! 6)
   \<and> \<not> idle (classify video10 (motion_series video10 ramp_scores) ! 6)
   \<and> motion_smooth (classify video10 (motion_series video10 ramp_scores) ! 6)
       > 21 + 0.5 * sqrt 48"
proof -
  have l: "length (classify video10 (motion_series video10 ramp_scores)) = 10"
    unfolding ramp_rows by (simp add: motion_series_def ramp_scores_def)
  have m: "classify video10 (motion_series video10 ramp_scores) ! 6
     \<in> set (classify video10 (motion_series video10 ramp_scores))"
    by (rule nth_mem) (simp add: l)
  have e: "rolling_mean (window_size video10) (map motion (motion_series video10 ramp_scores))
      = [20, 15, 14, 13, 15, 19, 25, 29, 30, 30]"
    by (simp add: ramp_motion ramp_smooth)
  from thresholds_sample_std [of video10 "motion_series video10 ramp_scores"] m
  have "active (classify video10 (motion_series video10 ramp_scores) ! 6) \<longleftrightarrow>
        motion_smooth (classify video10 (motion_series video10 ramp_scores) ! 6)
          > 21 + 0.5 * sqrt 48"
    unfolding Let_def e by simp
  then show ?thesis using m ramp_row6 by simp
qed

text \<open>
  The claim as stated, with the population standard deviation, fails: in the clip below
  the smoothed value 19 of the sixth row is below mean - 0.3 * std for the population
  standard deviation, and the row is not marked idle.
\<close>

theorem thresholds_population_counterexample:
  "map motion_smooth (classify video10 (motion_series video10 ramp_scores))
     = [20, 15, 14, 13, 15, 19, 25, 29, 30, 30]
   \<and> motion_smooth (classify video10 (motion_series video10 ramp_scores) ! 5)
     < series_mean [20, 15, 14, 13, 15, 19, 25, 29, 30, 30]
       - 0.3 * population_std [20, 15, 14, 13, 15, 19, 25, 29, 30, 30]
   \<and> \<not> idle (classify video10 (motion_series video10 ramp_scores) ! 5)"
proof -
  have "sqrt (216 / 5) < 20 / 3"
    by (rule real_less_lsqrt) (simp_all add: power2_eq_square)
  then have "(19 :: real) < 21 - 0.3 * sqrt (216 / 5)" by simp
  moreover have "map motion_smooth (classify video10 (motion_series video10 ramp_scores))
     = [20, 15, 14, 13, 15, 19, 25, 29, 30, 30]"
    unfolding ramp_rows by (simp add: motion_series_def ramp_scores_def)
  ultimately show ?thesis
    by (simp add: ramp_row5 ramp_mean ramp_population)
qed

text \<open>
  Claim C4. Boundary detection returns what the fallback segmenter returns when the motion
  series has fewer than 10 samples, whatever the samples are, and when the state machine
  emits no segment; otherwise it returns the non-empty list of the state machine and
  leaves the generator untouched. The function has no failing exit.
\<close>

theorem fallback_decision:
  "(length md < 10 \<longrightarrow> detect_rally_boundaries s md g = create_time_based_rallies s g) \<and>
   (\<not> length md < 10 \<and> detect_segments s (classify s md) = [] \<longrightarrow>
      detect_rally_boundaries s md g = create_time_based_rallies s g) \<and>
   (\<not> length md < 10 \<and> detect_segments s (classify s md) \<noteq> [] \<longrightarrow>
      detect_rally_boundaries s md g = (detect_segments s (classify s md), g))"
  by (simp add: detect_rally_boundaries_def Let_def)

theorem fallback_decision_witness:
  "length ([] :: motion_sample list) < 10
   \<and> detect_rally_boundaries video30 [] mid_draws = create_time_based_rallies video30 mid_draws
   \<and> \<not> length (motion_series video10 ramp_scores) < 10
   \<and> detect_segments video10 (classify video10 (motion_series video10 ramp_scores)) = []
   \<and> detect_rally_boundaries video10 (motion_series video10 ramp_scores) mid_draws
       = create_time_based_rallies video10 mid_draws
   \<and> \<not> length (motion_series video30 spike_scores) < 10
   \<and> detect_segments video30 (classify video30 (motion_series video30 spike_scores)) \<noteq> []
   \<and> detect_rally_boundaries video30 (motion_series video30 spike_scores) mid_draws
       = ([(6, 54)], mid_draws)"
proof -
  have a: "\<not> length (motion_series video10 ramp_scores) < 10"
    by (simp add: motion_series_def ramp_scores_def)
  have b: "\<not> length (motion_series video30 spike_scores) < 10"
    by (simp add: motion_series_def spike_scores_def)
  show ?thesis
    using fallback_decision [of "[]" video30 mid_draws]
      fallback_decision [of "motion_series video10 ramp_scores" video10 mid_draws]
      fallback_decision [of "motion_series video30 spike_scores" video30 mid_draws]
      a b
    by (simp add: ramp_detect spike_detect)
qed

text \<open>
  Claim C5. The claim asks for three segments of about 4 seconds on a series that
  alternates 4 seconds of motion with 4 seconds of stillness three times at 30 frames per
  second. The code samples every 6 frames and smooths over \<open>int(fps / 2)\<close> = 15
  samples, which its comment calls a window of about 0.5 seconds and which spans 3
  seconds of video. The idle rows between two bursts then run from frame 138 to frame
  228, 90 frames, which does not exceed the idle threshold of 90 frames, so no rally ends
  there, and boundary detection returns the single segment (6, 618) of 20.4 seconds.
\<close>

theorem alternating_merged_into_one:
  "length (motion_series video24 raw_alternating) = 120
   \<and> sample_interval video24 = 6 \<and> window_size video24 = 15
   \<and> idle_threshold_frames video24 = 90
   \<and> map frame (filter idle (take 40 (classify video24 (motion_series video24 raw_alternating))))
       = [138, 144, 150, 156, 162, 168, 174, 180, 186, 192, 198, 204, 210, 216, 222, 228]
   \<and> fst (detect_rally_boundaries video24 (motion_series video24 raw_alternating) mid_draws)
       = [(6, 618)]
   \<and> real_of_int (618 - 6) / fps video24 = 20.4"
proof -
  have l: "length (motion_series video24 raw_alternating) = 120"
    by (simp add: motion_series_def raw_alternating_def)
  then have a: "fst (detect_rally_boundaries video24 (motion_series video24 raw_alternating)
      mid_draws) = [(6, 618)]"
    by (simp add: detect_rally_boundaries_def raw_alternating_detect)
  have b: "sample_interval video24 = 6" "window_size video24 = 15"
    "idle_threshold_frames video24 = 90" "real_of_int (618 - 6) / fps video24 = 20.4"
    by (simp_all add: sample_interval_def window_size_def idle_threshold_frames_def
        IDLE_THRESHOLD_def video24_def py_int_def)
  from l b raw_alternating_idle a show ?thesis by (intro conjI)
qed

text \<open>
  Claim C6. In a rally a row that is not idle clears the pending idle start and changes
  nothing else. So for two spikes of active rows around a run of idle rows that all lie
  within the idle threshold of the first idle row (every gap shorter than the threshold
  is such a run), the state after the second spike is the state after the first one, and
  at the end of the series one segment from the first row of the first spike to the last
  row of the second is emitted, if it exceeds the minimum length.
\<close>

theorem idle_debounce_merges:
  assumes "spike1 \<noteq> []" and "spike2 \<noteq> []"
    and "\<forall>r\<in>set spike1 \<union> set spike2. active r \<and> \<not> idle r"
    and "\<forall>r\<in>set gap. idle r \<and> frame r - frame (hd gap) \<le> idle_threshold_frames s"
  shows "(\<forall>st row. in_rally st \<and> \<not> idle row \<longrightarrow>
            boundary_step (min_rally_frames s) (idle_threshold_frames s) st row
              = st\<lparr>idle_start := None\<rparr>) \<and>
         walk_rows s init_state spike1 =
           \<lparr>rally_segments = [], in_rally = True, rally_start = frame (hd spike1),
            idle_start = None\<rparr> \<and>
         walk_rows s init_state (spike1 @ gap @ spike2) = walk_rows s init_state spike1 \<and>
         detect_segments s (spike1 @ gap @ spike2) =
           (if frame (last spike2) - frame (hd spike1) > min_rally_frames s
            then [(frame (hd spike1), frame (last spike2))] else [])"
proof -
  let ?st = "\<lparr>rally_segments = [], in_rally = True, rally_start = frame (hd spike1),
              idle_start = None\<rparr>"
  have a: "walk_rows s init_state spike1 = ?st"
    unfolding walk_rows_def using assms(1,3) by (intro foldl_spike) auto
  have "walk_rows s init_state (spike1 @ gap @ spike2) = walk_rows s ?st (gap @ spike2)"
    using a by (simp add: walk_rows_def)
  also have "\<dots> = ?st"
    unfolding walk_rows_def using assms(2,3,4) by (intro foldl_gap_spike) auto
  finally have b: "walk_rows s init_state (spike1 @ gap @ spike2) = ?st" .
  have c: "detect_segments s (spike1 @ gap @ spike2) =
           (if frame (last spike2) - frame (hd spike1) > min_rally_frames s
            then [(frame (hd spike1), frame (last spike2))] else [])"
    using assms(1,2) by (simp add: detect_segments_def b)
  show ?thesis using a b c by (simp add: step_non_idle)
qed

theorem idle_debounce_merges_witness:
  "merged_spike1 \<noteq> [] \<and> merged_spike2 \<noteq> []
   \<and> map frame merged_gap = [66, 72, 78, 84, 90, 96, 102, 108, 114, 120]
   \<and> idle_threshold_frames video30 = 90
   \<and> detect_segments video30 (merged_spike1 @ merged_gap @ merged_spike2) = [(6, 180)]"
proof -
  have s1: "merged_spike1 \<noteq> []" "frame (hd merged_spike1) = 6"
    by (simp_all add: merged_spike1_def classified_row_def upt_rec_numeral upt_conv_Cons)
  have s2: "merged_spike2 \<noteq> []" "frame (last merged_spike2) = 180"
    by (simp_all add: merged_spike2_def classified_row_def upt_rec_numeral)
  have g: "map frame merged_gap = [66, 72, 78, 84, 90, 96, 102, 108, 114, 120]"
    "frame (hd merged_gap) = 66"
    by (simp_all add: merged_gap_def classified_row_def upt_rec_numeral)
  have t: "idle_threshold_frames video30 = 90" "min_rally_frames video30 = 60"
    by (simp_all add: idle_threshold_frames_def min_rally_frames_def IDLE_THRESHOLD_def
        MIN_RALLY_DURATION_def video30_def py_int_def)
  have h3: "\<forall>r\<in>set merged_spike1 \<union> set merged_spike2. active r \<and> \<not> idle r"
    by (auto simp: merged_spike1_def merged_spike2_def classified_row_def)
  have "\<forall>f\<in>set (map frame merged_gap). f - 66 \<le> 90" unfolding g(1) by simp
  moreover have "\<forall>r\<in>set merged_gap. idle r"
    by (auto simp: merged_gap_def classified_row_def)
  ultimately have h4: "\<forall>r\<in>set merged_gap.
      idle r \<and> frame r - frame (hd merged_gap) \<le> idle_threshold_frames video30"
    by (simp add: g(2) t(1))
  from idle_debounce_merges [OF s1(1) s2(1) h3 h4] show ?thesis
    by (simp add: s1 s2 g t)
qed

text \<open>
  Claim C7, as amended. The segments of the fallback segmenter are the frame pairs of a
  trace of times, each taken by \<open>int()\<close> of the time in frames: every traced segment
  starts at a current time of at least 2 seconds, has a rally duration between
  \<open>max 5 (avg - 10)\<close> and \<open>min 45 (avg + 15)\<close> seconds, where \<open>avg\<close> is 15 for a
  video shorter than 300 seconds and 25 otherwise, and starts 3 to 10 seconds after the
  end of the segment before it; every appended segment ends before the frame count. In
  frames, for a positive frame rate, the same bounds hold up to less than one frame: the
  start frame is above \<open>2 * fps - 1\<close>, the length in frames lies strictly between the
  lower bound times fps minus 1 and the upper bound times fps plus 1, and the frames
  between the end of a segment and the start of the next lie strictly between
  \<open>3 * fps - 1\<close> and \<open>10 * fps + 1\<close>.
\<close>

theorem fallback_segments:
  "fst (create_time_based_rallies s g) = map (frames_of s) (time_based_trace s 2 g) \<and>
   avg_rally_duration s = (if duration s < 300 then 15 else 25) \<and>
   (\<forall>p\<in>set (time_based_trace s 2 g).
      2 \<le> fst p \<and> max 5 (avg_rally_duration s - 10) \<le> snd p
      \<and> snd p \<le> min 45 (avg_rally_duration s + 15)) \<and>
   (\<forall>v\<in>set (gaps (time_based_trace s 2 g)). 3 \<le> v \<and> v \<le> 10) \<and>
   (\<forall>seg\<in>set (fst (create_time_based_rallies s g)). snd seg < frame_count s) \<and>
   (0 < fps s \<longrightarrow>
      (\<forall>seg\<in>set (fst (create_time_based_rallies s g)).
         2 * fps s - 1 < real_of_int (fst seg) \<and>
         max 5 (avg_rally_duration s - 10) * fps s - 1 < real_of_int (snd seg - fst seg) \<and>
         real_of_int (snd seg - fst seg) < min 45 (avg_rally_duration s + 15) * fps s + 1) \<and>
      (\<forall>i. Suc i < length (fst (create_time_based_rallies s g)) \<longrightarrow>
         3 * fps s - 1 < real_of_int (fst (fst (create_time_based_rallies s g) ! Suc i)
                                        - snd (fst (create_time_based_rallies s g) ! i)) \<and>
         real_of_int (fst (fst (create_time_based_rallies s g) ! Suc i)
                      - snd (fst (create_time_based_rallies s g) ! i)) < 10 * fps s + 1))"
proof -
  have a: "\<forall>seg\<in>set (map (frames_of s) (time_based_trace s 2 g)). snd seg < frame_count s"
    using trace_elems [of s 2 g] by (simp add: snd_frames_of)
  have b: "fst (create_time_based_rallies s g) = map (frames_of s) (time_based_trace s 2 g) \<and>
   avg_rally_duration s = (if duration s < 300 then 15 else 25) \<and>
   (\<forall>p\<in>set (time_based_trace s 2 g).
      2 \<le> fst p \<and> max 5 (avg_rally_duration s - 10) \<le> snd p
      \<and> snd p \<le> min 45 (avg_rally_duration s + 15)) \<and>
   (\<forall>v\<in>set (gaps (time_based_trace s 2 g)). 3 \<le> v \<and> v \<le> 10) \<and>
   (\<forall>seg\<in>set (fst (create_time_based_rallies s g)). snd seg < frame_count s)"
    using a trace_elems [of s 2 g] trace_gaps [of s 2 g]
    by (simp add: fallback_trace_eq rally_lo_def rally_hi_def avg_rally_duration_def)
  show ?thesis
    using b fallback_frames [of s g] unfolding rally_lo_def rally_hi_def by blast
qed

theorem fallback_segments_witness:
  "0 < fps video_ntsc
   \<and> fst (create_time_based_rallies video_ntsc zero_draws)
       = [(59, 209), (299, 449), (539, 689), (779, 929), (1018, 1168), (1258, 1408),
          (1498, 1648)]
   \<and> time_based_trace video_ntsc 2 zero_draws
       = [(2, 5), (10, 5), (18, 5), (26, 5), (34, 5), (42, 5), (50, 5)]
   \<and> gaps (time_based_trace video_ntsc 2 zero_draws) = [3, 3, 3, 3, 3, 3]
   \<and> avg_rally_duration video_ntsc = 15
   \<and> (1648 :: int) < frame_count video_ntsc
   \<and> 2 * fps video_ntsc - 1 < real_of_int 59
   \<and> max 5 (avg_rally_duration video_ntsc - 10) * fps video_ntsc - 1 < real_of_int (209 - 59)
   \<and> real_of_int (209 - 59) < min 45 (avg_rally_duration video_ntsc + 15) * fps video_ntsc + 1
   \<and> 3 * fps video_ntsc - 1 < real_of_int (1018 - 929)
   \<and> real_of_int (1018 - 929) < 10 * fps video_ntsc + 1"
proof -
  have f: "0 < fps video_ntsc" "frame_count video_ntsc = 1800"
    by (simp_all add: video_ntsc_def)
  have e: "fst (create_time_based_rallies video_ntsc zero_draws)
       = [(59, 209), (299, 449), (539, 689), (779, 929), (1018, 1168), (1258, 1408),
          (1498, 1648)]"
    by (simp add: create_time_based_rallies_def loop_ntsc)
  have t: "time_based_trace video_ntsc 2 zero_draws
       = [(2, 5), (10, 5), (18, 5), (26, 5), (34, 5), (42, 5), (50, 5)]"
    by (simp add: time_based_trace.simps video_ntsc_def uniform_zero py_int_def duration_def
        rally_lo_def rally_hi_def avg_rally_duration_def)
  have a: "avg_rally_duration video_ntsc = 15"
    by (simp add: avg_rally_duration_def duration_def video_ntsc_def)
  note th = fallback_segments [of video_ntsc zero_draws]
  have m: "(59, 209) \<in> set (fst (create_time_based_rallies video_ntsc zero_draws))"
    unfolding e by simp
  from th f(1) m have s0: "2 * fps video_ntsc - 1 < real_of_int (fst (59 :: int, 209 :: int))
     \<and> max 5 (avg_rally_duration video_ntsc - 10) * fps video_ntsc - 1
         < real_of_int (snd (59 :: int, 209 :: int) - fst (59 :: int, 209 :: int))
     \<and> real_of_int (snd (59 :: int, 209 :: int) - fst (59 :: int, 209 :: int))
         < min 45 (avg_rally_duration video_ntsc + 15) * fps video_ntsc + 1"
    by blast
  have n: "Suc 3 < length (fst (create_time_based_rallies video_ntsc zero_draws))"
    "fst (create_time_based_rallies video_ntsc zero_draws) ! Suc 3 = (1018, 1168)"
    "fst (create_time_based_rallies video_ntsc zero_draws) ! 3 = (779, 929)"
    unfolding e by simp_all
  from th f(1) n(1) have "3 * fps video_ntsc - 1
           < real_of_int (fst (fst (create_time_based_rallies video_ntsc zero_draws) ! Suc 3)
                          - snd (fst (create_time_based_rallies video_ntsc zero_draws) ! 3)) \<and>
         real_of_int (fst (fst (create_time_based_rallies video_ntsc zero_draws) ! Suc 3)
                      - snd (fst (create_time_based_rallies video_ntsc zero_draws) ! 3))
           < 10 * fps video_ntsc + 1"
    by blast
  then have s1: "3 * fps video_ntsc - 1 < real_of_int (fst (1018 :: int, 1168 :: int)
                                                        - snd (779 :: int, 929 :: int))
     \<and> real_of_int (fst (1018 :: int, 1168 :: int) - snd (779 :: int, 929 :: int))
         < 10 * fps video_ntsc + 1"
    unfolding n(2,3) .
  have g: "gaps (time_based_trace video_ntsc 2 zero_draws) = [3, 3, 3, 3, 3, 3]"
    unfolding t by (simp add: gaps_def)
  from f e t g a s0 s1 show ?thesis by simp
qed

text \<open>
  The claim as stated, with the bounds of 2 seconds and of 3 seconds on the frames of the
  returned segments, fails: at 29.97 frames per second the first segment starts at frame
  59, before 2 seconds, and the fifth starts 89 frames after the end of the fourth, less
  than 3 seconds.
\<close>

theorem fallback_frames_counterexample:
  "fst (create_time_based_rallies video_ntsc zero_draws)
       = [(59, 209), (299, 449), (539, 689), (779, 929), (1018, 1168), (1258, 1408),
          (1498, 1648)]
   \<and> real_of_int 59 / fps video_ntsc < 2
   \<and> real_of_int (1018 - 929) / fps video_ntsc < 3"
proof -
  have "fst (create_time_based_rallies video_ntsc zero_draws)
       = [(59, 209), (299, 449), (539, 689), (779, 929), (1018, 1168), (1258, 1408),
          (1498, 1648)]"
    by (simp add: create_time_based_rallies_def loop_ntsc)
  moreover have "real_of_int 59 / fps video_ntsc < 2"
    "real_of_int (1018 - 929) / fps video_ntsc < 3"
    by (simp_all add: video_ntsc_def)
  ultimately show ?thesis by (intro conjI)
qed

text \<open>
  Claim C8, as amended. For every detected segment the engine builds one rally, numbered
  from 1, with the frames of the segment, its times and its duration; it also sets the
  winner to Player A or Player B, the end reason to net, out or in_court, and a
  description that is not empty; it leaves shots and mistakes empty and the clip path
  unset.
\<close>

theorem rallies_enriched:
  "length (rallies (segment_rallies s md g)) = length (fst (detect_rally_boundaries s md g)) \<and>
   (\<forall>k < length (fst (detect_rally_boundaries s md g)).
      (let r = rallies (segment_rallies s md g) ! k;
           seg = fst (detect_rally_boundaries s md g) ! k
       in rally_number r = int k + 1 \<and> start_frame r = fst seg \<and> end_frame r = snd seg \<and>
          start_time r = real_of_int (fst seg) / fps s \<and>
          end_time r = real_of_int (snd seg) / fps s \<and>
          Rally.duration r = real_of_int (snd seg - fst seg) / fps s \<and>
          (winner r = Some ''Player A'' \<or> winner r = Some ''Player B'') \<and>
          (end_reason r = Some ''net'' \<or> end_reason r = Some ''out''
           \<or> end_reason r = Some ''in_court'') \<and>
          description r \<noteq> [] \<and>
          shots r = [] \<and> mistakes r = [] \<and> clip_path r = None))"
  using segment_rallies_fields [of s md g] unfolding rally_fields_def Let_def by simp

theorem rallies_enriched_witness:
  "(0 :: nat) < length (fst (detect_rally_boundaries video30 [] mid_draws))
   \<and> rally_number (rallies (segment_rallies video30 [] mid_draws) ! 0) = 1
   \<and> start_frame (rallies (segment_rallies video30 [] mid_draws) ! 0) = 60
   \<and> end_frame (rallies (segment_rallies video30 [] mid_draws) ! 0) = 585
   \<and> Rally.duration (rallies (segment_rallies video30 [] mid_draws) ! 0) = 35 / 2
   \<and> shots (rallies (segment_rallies video30 [] mid_draws) ! 0) = []
   \<and> mistakes (rallies (segment_rallies video30 [] mid_draws) ! 0) = []"
proof -
  have f: "fps video30 = 30" by (simp add: video30_def)
  have l: "(0 :: nat) < length (fst (detect_rally_boundaries video30 [] mid_draws))"
    by (simp add: detect_video30)
  from rallies_enriched [of video30 "[]" mid_draws] l
  have "let r = rallies (segment_rallies video30 [] mid_draws) ! 0;
            seg = fst (detect_rally_boundaries video30 [] mid_draws) ! 0
        in rally_number r = int 0 + 1 \<and> start_frame r = fst seg \<and> end_frame r = snd seg \<and>
           start_time r = real_of_int (fst seg) / fps video30 \<and>
           end_time r = real_of_int (snd seg) / fps video30 \<and>
           Rally.duration r = real_of_int (snd seg - fst seg) / fps video30 \<and>
           (winner r = Some ''Player A'' \<or> winner r = Some ''Player B'') \<and>
           (end_reason r = Some ''net'' \<or> end_reason r = Some ''out''
            \<or> end_reason r = Some ''in_court'') \<and>
           description r \<noteq> [] \<and>
           shots r = [] \<and> mistakes r = [] \<and> clip_path r = None"
    by blast
  then show ?thesis
    using l by (simp add: detect_video30 Let_def f)
qed

text \<open>
  The claim as stated, that winner, end reason and description keep their defaults, fails:
  for a video of 60 seconds without motion data the first rally has the winner Player A,
  the end reason in_court and a description.
\<close>

theorem rallies_enriched_counterexample:
  "length (rallies (segment_rallies video30 [] mid_draws)) = 2
   \<and> winner (rallies (segment_rallies video30 [] mid_draws) ! 0) = Some ''Player A''
   \<and> end_reason (rallies (segment_rallies video30 [] mid_draws) ! 0) = Some ''in_court''
   \<and> description (rallies (segment_rallies video30 [] mid_draws) ! 0) \<noteq> []"
proof -
  let ?st = "\<lparr>rallies = [], hit_points = [], gen = mid_draws\<rparr>"
  have r: "determine_end_reason (real_of_int (585 - 60) / fps video30) mid_draws
      = (''in_court'', mid_draws)"
    by (simp add: determine_end_reason_def random_unit_mid video30_def)
  have w: "determine_winner (int 0 + 1) ''in_court'' mid_draws = (''Player A'', mid_draws)"
    by (simp add: determine_winner_def random_unit_mid)
  have e: "segment_rallies video30 [] mid_draws
      = build_rallies video30 0 [(60, 585), (780, 1305)] ?st"
    by (simp add: segment_rallies_def detect_video30)
  have f: "rallies (segment_rallies video30 [] mid_draws) ! 0
      = fst (fst (build_rally video30 0 (60, 585) mid_draws))"
    unfolding e using build_rallies_first [of video30 0 "(60, 585)" "[(780, 1305)]" ?st]
    by simp
  have l: "length (rallies (segment_rallies video30 [] mid_draws)) = 2"
    using segment_rallies_fields [of video30 "[]" mid_draws] by (simp add: detect_video30)
  have d: "description (rallies (segment_rallies video30 [] mid_draws) ! 0) \<noteq> []"
    using build_rally_fields [of video30 0 "(60, 585)" mid_draws]
    by (simp add: f rally_fields_def)
  show ?thesis
    using build_rally_outcome [OF r w] l d by (simp add: f)
qed

text \<open>
  Claim C9, as amended. The notifications of an asynchronous segmentation run, the calls
  of the progress callback and the yielded dicts in the order they are emitted, have
  percent values that never decrease and lie between 0 and 95, and the last one is the
  yield with percent 95; none has percent 100.
\<close>

theorem progress_ends_at_95:
  "snd (segment_rallies_async s has_callback md g) \<noteq> [] \<and>
   sorted (map percent (snd (segment_rallies_async s has_callback md g))) \<and>
   (\<forall>e\<in>set (snd (segment_rallies_async s has_callback md g)).
      0 \<le> percent e \<and> percent e \<le> 95) \<and>
   percent (last (snd (segment_rallies_async s has_callback md g))) = 95"
proof -
  obtain segs g1 where d: "detect_rally_boundaries s md g = (segs, g1)"
    by (cases "detect_rally_boundaries s md g")
  let ?out2 = "(callback has_callback 0 ''Starting video analysis...''
                 @ [Yield 40 ''Motion analysis complete'' None]
                 @ callback has_callback 45 ''Detecting rally boundaries...'')
                 @ [Yield 60 (''Found '' @ str_nat (length segs) @ '' rally segments'') None]
                 @ callback has_callback 70 ''Building rally data...''"
  obtain st out3 where l: "build_rallies_async s (length segs) 0 segs
      (\<lparr>rallies = [], hit_points = [], gen = g1\<rparr>, ?out2) = (st, out3)"
    by (cases "build_rallies_async s (length segs) 0 segs
      (\<lparr>rallies = [], hit_points = [], gen = g1\<rparr>, ?out2)")
  have e: "snd (segment_rallies_async s has_callback md g)
      = out3 @ [Yield 95 (''Completed: '' @ str_nat (length (rallies st))
                           @ '' rallies detected'') None]"
    unfolding segment_rallies_async_def Let_def d prod.case l by simp
  have a: "sorted (map percent ?out2)" by (simp add: callback_def)
  have c: "\<forall>e\<in>set ?out2. 0 \<le> percent e
      \<and> percent e \<le> 70 + real (0 :: nat) / real (length segs) * 25"
    by (auto simp: callback_def split: if_splits)
  have k: "0 + length segs \<le> length segs" by simp
  have "sorted (map percent out3) \<and> (\<forall>e\<in>set out3. 0 \<le> percent e \<and> percent e \<le> 95)"
    using async_loop_percent [OF a c k, of s "\<lparr>rallies = [], hit_points = [], gen = g1\<rparr>"]
    unfolding l snd_conv .
  then show ?thesis
    unfolding e by (auto simp: sorted_append)
qed

theorem progress_ends_at_95_witness:
  "hd (snd (segment_rallies_async video30 True [] mid_draws))
     = Callback 0 ''Starting video analysis...''
   \<and> hd (snd (segment_rallies_async video30 True [] mid_draws))
     \<in> set (snd (segment_rallies_async video30 True [] mid_draws))
   \<and> percent (hd (snd (segment_rallies_async video30 True [] mid_draws))) \<le> 95
   \<and> percent (last (snd (segment_rallies_async video30 True [] mid_draws))) = 95"
proof -
  note h = async_first [of video30 "[]" mid_draws]
  note p = progress_ends_at_95 [of video30 True "[]" mid_draws]
  from p have m: "hd (snd (segment_rallies_async video30 True [] mid_draws))
     \<in> set (snd (segment_rallies_async video30 True [] mid_draws))"
    by (intro hd_in_set) simp
  with p have "percent (hd (snd (segment_rallies_async video30 True [] mid_draws))) \<le> 95"
    by blast
  with p h m show ?thesis by blast
qed

text \<open>
  The claim as stated, that the sequence ends with percent 100, fails: the last
  notification of a run on a video of 60 seconds has percent 95.
\<close>

theorem progress_not_100_counterexample:
  "percent (last (snd (segment_rallies_async video30 True [] mid_draws))) = 95
   \<and> percent (last (snd (segment_rallies_async video30 True [] mid_draws))) \<noteq> 100"
  by (simp add: segment_rallies_async_def Let_def split: prod.splits)

text \<open>
  Claim C10. For a segment whose end frame is after its start frame and a positive frame
  rate, the hit point estimator returns at least 2 hit points, and the frame of every hit
  point lies between the start frame and the end frame of the segment, both included.
\<close>

theorem hits_within_segment:
  assumes "sf < ef" and "0 < fps s"
  shows "2 \<le> length (fst (estimate_hits_in_rally s sf ef g)) \<and>
         (\<forall>h\<in>set (fst (estimate_hits_in_rally s sf ef g)).
            sf \<le> HitPoint.frame h \<and> HitPoint.frame h \<le> ef)"
proof -
  obtain sps g1 where u: "uniform 0.5 1.2 g = (sps, g1)" by (cases "uniform 0.5 1.2 g")
  let ?n = "estimated_shots (real_of_int (ef - sf) / fps s) sps"
  have n: "2 \<le> nat ?n" by (simp add: estimated_shots_def)
  have "length (fst (estimate_hits_in_rally s sf ef g)) = nat ?n"
    unfolding estimate_hits_in_rally_def Let_def u prod.case
    by (simp add: hits_loop_length)
  moreover have "\<forall>h\<in>set (fst (estimate_hits_in_rally s sf ef g)).
            sf \<le> HitPoint.frame h \<and> HitPoint.frame h \<le> ef"
    unfolding estimate_hits_in_rally_def Let_def u prod.case
    using assms(1) by (intro hits_loop_frames) simp_all
  ultimately show ?thesis using n by simp
qed

theorem hits_within_segment_witness:
  "(60 :: int) < 585 \<and> 0 < fps video30
   \<and> length (fst (estimate_hits_in_rally video30 60 585 mid_draws)) = 14
   \<and> HitPoint.frame (hd (fst (estimate_hits_in_rally video30 60 585 mid_draws))) = 94
   \<and> hd (fst (estimate_hits_in_rally video30 60 585 mid_draws))
       \<in> set (fst (estimate_hits_in_rally video30 60 585 mid_draws))"
proof -
  have h1: "(60 :: int) < 585" by simp
  have h2: "0 < fps video30" by (simp add: video30_def)
  have u: "uniform 0.5 1.2 mid_draws = (17 / 20, mid_draws)"
    by (simp add: uniform_mid)
  have n: "estimated_shots (real_of_int (585 - 60) / fps video30) (17 / 20) = 14"
    by (simp add: estimated_shots_def video30_def py_int_def)
  have e: "estimate_hits_in_rally video30 60 585 mid_draws
      = hits_loop video30 60 585 35 [0..<14] mid_draws []"
    unfolding estimate_hits_in_rally_def Let_def u prod.case n by simp
  have l: "length (fst (estimate_hits_in_rally video30 60 585 mid_draws)) = 14"
    by (simp add: e hits_loop_length)
  have "[0..<14] = 0 # [1..<14]" by (simp add: upt_conv_Cons)
  then have "hd (fst (estimate_hits_in_rally video30 60 585 mid_draws))
      = fst (estimate_hit video30 60 585 35 0 mid_draws)"
    unfolding e by (simp add: hits_loop_hd split: prod.splits)
  then have f: "HitPoint.frame (hd (fst (estimate_hits_in_rally video30 60 585 mid_draws))) = 94"
    by (simp add: estimate_hit_def randint_mid uniform_mid py_int_def)
  have "fst (estimate_hits_in_rally video30 60 585 mid_draws) \<noteq> []" using l by auto
  then have m: "hd (fst (estimate_hits_in_rally video30 60 585 mid_draws))
       \<in> set (fst (estimate_hits_in_rally video30 60 585 mid_draws))"
    by (rule hd_in_set)
  show ?thesis
    using hits_within_segment [OF h1 h2, of mid_draws] l f m h2 by simp
qed

end
